theory Spec2Isabelle
  imports Complex_Main "HOL-Library.Sublist" "HOL-Library.Log_Nat"
begin

section \<open>JavaScript values used by the annotation filter\<close>

text \<open>
  A JavaScript number is an IEEE 754 double. It is modelled by its value: a rational,
  one of the two infinities, or NaN; the sign of zero is not modelled. A JavaScript string is
  a \<open>string\<close>, one character for each code unit.
\<close>

datatype jsnum = NaN | NegInf | Fin rat | PosInf

text \<open>The integer nearest to a rational, the even one of two that are equally near.\<close>

definition round_half_even :: "rat \<Rightarrow> int" where
  "round_half_even x =
     (let f = \<lfloor>x\<rfloor>; d = x - of_int f
      in if d < 1 / 2 then f else if 1 / 2 < d then f + 1 else if even f then f else f + 1)"

text \<open>The exponent \<open>e\<close> of a positive rational \<open>a\<close>: \<open>2^e <= a < 2^(e+1)\<close>.\<close>

definition ilog2 :: "rat \<Rightarrow> int" where
  "ilog2 a =
     (let k = bitlen (fst (quotient_of a)) - bitlen (snd (quotient_of a))
      in if 2 powi k \<le> a then k else k - 1)"

text \<open>
  The double that an arithmetic operation returns for the exact result \<open>x\<close>: the nearest
  multiple of \<open>2^(e-52)\<close>, ties to the even multiple, where \<open>e\<close> is the exponent of \<open>x\<close>
  and at least \<open>-1022\<close> (below that the doubles are evenly spaced), and an infinity from
  \<open>2^1024\<close> on.
\<close>

definition round_double :: "rat \<Rightarrow> jsnum" where
  "round_double x =
     (if x = 0 then Fin 0
      else
        let a = \<bar>x\<bar>;
            e = max (ilog2 a) (- 1022);
            u = 2 powi (e - 52);
            y = of_int (round_half_even (a / u)) * u
        in if 2 powi 1024 \<le> y then (if 0 < x then PosInf else NegInf)
           else Fin (if 0 < x then y else - y))"

text \<open>The binary \<open>-\<close> of JavaScript on numbers.\<close>

fun js_sub :: "jsnum \<Rightarrow> jsnum \<Rightarrow> jsnum" where
  "js_sub NaN y = NaN"
| "js_sub x NaN = NaN"
| "js_sub (Fin a) (Fin b) = round_double (a - b)"
| "js_sub (Fin a) PosInf = NegInf"
| "js_sub (Fin a) NegInf = PosInf"
| "js_sub PosInf PosInf = NaN"
| "js_sub PosInf y = PosInf"
| "js_sub NegInf NegInf = NaN"
| "js_sub NegInf y = NegInf"

text \<open>The binary \<open>/\<close> of JavaScript on numbers (a zero divisor is taken as \<open>+0\<close>).\<close>

fun js_div :: "jsnum \<Rightarrow> jsnum \<Rightarrow> jsnum" where
  "js_div NaN y = NaN"
| "js_div x NaN = NaN"
| "js_div (Fin a) (Fin b) =
     (if b = 0 then (if a = 0 then NaN else if 0 < a then PosInf else NegInf)
      else round_double (a / b))"
| "js_div (Fin a) y = Fin 0"
| "js_div PosInf (Fin b) = (if 0 \<le> b then PosInf else NegInf)"
| "js_div NegInf (Fin b) = (if 0 \<le> b then NegInf else PosInf)"
| "js_div x y = NaN"

text \<open>The relational operator \<open><=\<close> of JavaScript on numbers: false whenever NaN is involved.\<close>

fun js_le :: "jsnum \<Rightarrow> jsnum \<Rightarrow> bool" where
  "js_le NaN y = False"
| "js_le x NaN = False"
| "js_le NegInf y = True"
| "js_le x PosInf = True"
| "js_le (Fin a) (Fin b) = (a \<le> b)"
| "js_le x y = False"

text \<open>\<open>String.prototype.includes\<close>: the term occurs in the value as a contiguous run.\<close>

fun str_includes :: "string \<Rightarrow> string \<Rightarrow> bool" where
  "str_includes [] t = (t = [])"
| "str_includes (c # cs) t = (prefix t (c # cs) \<or> str_includes cs t)"

text \<open>A query term: a string, or a number (the \<open>since\<close> field).\<close>

datatype jsval = Str string | Num jsnum

text \<open>The only exception the filter can raise.\<close>

datatype error = TypeError

section \<open>Data model\<close>

record user_info =
  display_name :: "string option"

text \<open>The fields of \<open>Annotation\<close> that the filter reads; \<open>id\<close> is optional.\<close>

record annotation =
  ann_id :: "string option"
  ann_text :: string
  ann_tags :: "string list"
  ann_uri :: string
  ann_user :: string
  ann_user_info :: "user_info option"
  ann_updated :: string

datatype operator = And | Or

text \<open>A \<open>Facet\<close>: the terms of one field and how they combine.\<close>

record facet =
  terms :: "jsval list"
  operator :: operator

text \<open>
  The structured query \<open>Record<string, Facet>\<close>, as the list of entries that
  \<open>Object.entries\<close> yields.
\<close>

type_synonym query = "(string \<times> facet) list"

text \<open>
  What the module takes from outside: the clock (\<open>Date.now()\<close>, one reading for a call),
  the time value of a date string (\<open>new Date(s).valueOf()\<close>, \<open>None\<close> for the NaN of an
  invalid date; a time value is a whole number of milliseconds of magnitude at most
  \<open>8.64 * 10^15\<close>, which is below \<open>2^53\<close>), the functions of \<open>unicodeUtils\<close>,
  \<open>String.prototype.toLowerCase\<close>,
  the accessor \<open>quote\<close> of \<open>annotation-metadata\<close> (\<open>None\<close> for null) and the conversion
  of a string to a number that \<open><=\<close> applies to a string operand.
\<close>

record env =
  Date_now :: int
  Date_valueOf :: "string \<Rightarrow> int option"
  unicode_normalize :: "string \<Rightarrow> string"
  unicode_fold :: "string \<Rightarrow> string"
  toLowerCase :: "string \<Rightarrow> string"
  quote :: "annotation \<Rightarrow> string option"
  ToNumber :: "string \<Rightarrow> jsnum"

section \<open>Matchers and filters\<close>

text \<open>\<open>Matcher<T>\<close>: how to test a term of type \<open>T\<close> against one field.\<close>

record 't matcher =
  fieldValues :: "annotation \<Rightarrow> 't list"
  matches :: "'t \<Rightarrow> 't \<Rightarrow> bool"
  normalize_fn :: "'t \<Rightarrow> 't"

definition normalizeStr :: "env \<Rightarrow> string \<Rightarrow> string" where
  "normalizeStr e val = toLowerCase e (unicode_fold e (unicode_normalize e val))"

text \<open>\<open>class TermFilter\<close>: the constructor normalizes the term once.\<close>

record 't TermFilter =
  tf_term :: 't
  tf_matcher :: "'t matcher"

definition new_TermFilter :: "'t \<Rightarrow> 't matcher \<Rightarrow> 't TermFilter" where
  "new_TermFilter t m = \<lparr>tf_term = normalize_fn m t, tf_matcher = m\<rparr>"

definition TermFilter_matches :: "'t TermFilter \<Rightarrow> annotation \<Rightarrow> bool" where
  "TermFilter_matches tf ann =
     (let m = tf_matcher tf
      in list_ex (\<lambda>v. matches m (normalize_fn m v) (tf_term tf)) (fieldValues m ann))"

text \<open>
  The objects that implement \<open>Filter\<close>: a term filter over strings, a term filter over
  numbers, and \<open>class BooleanOpFilter\<close>.
\<close>

datatype Filter =
  StringTermFilter "string TermFilter"
| NumberTermFilter "jsnum TermFilter"
| BooleanOpFilter operator "Filter list"

fun Filter_matches :: "Filter \<Rightarrow> annotation \<Rightarrow> bool" where
  "Filter_matches (StringTermFilter tf) ann = TermFilter_matches tf ann"
| "Filter_matches (NumberTermFilter tf) ann = TermFilter_matches tf ann"
| "Filter_matches (BooleanOpFilter opr fs) ann =
     (if opr = And then list_all (\<lambda>f. Filter_matches f ann) fs
      else list_ex (\<lambda>f. Filter_matches f ann) fs)"

definition stringFieldMatcher :: "env \<Rightarrow> (annotation \<Rightarrow> string list) \<Rightarrow> string matcher" where
  "stringFieldMatcher e fv =
     \<lparr>fieldValues = fv,
      matches = (\<lambda>v t. str_includes v t),
      normalize_fn = normalizeStr e\<rparr>"

definition since_matcher :: "env \<Rightarrow> jsnum matcher" where
  "since_matcher e =
     \<lparr>fieldValues = (\<lambda>ann. [case Date_valueOf e (ann_updated ann) of
                               None \<Rightarrow> NaN | Some ms \<Rightarrow> Fin (of_int ms)]),
      matches = (\<lambda>updatedTime age.
         let delta = js_div (js_sub (Fin (of_int (Date_now e))) updatedTime) (Fin 1000)
         in js_le delta age),
      normalize_fn = (\<lambda>timestamp. timestamp)\<rparr>"

datatype field_matcher = StringMatcher "string matcher" | NumberMatcher "jsnum matcher"

text \<open>
  \<open>fieldMatchers[field]\<close>. \<open>None\<close> stands for a value that is not a matcher: \<open>undefined\<close>,
  or a member inherited from \<open>Object.prototype\<close>, which has no \<open>normalize\<close> either.
\<close>

definition fieldMatchers :: "env \<Rightarrow> string \<Rightarrow> field_matcher option" where
  "fieldMatchers e field =
     (if field = ''quote'' then
        Some (StringMatcher (stringFieldMatcher e
          (\<lambda>ann. [case quote e ann of None \<Rightarrow> [] | Some q \<Rightarrow> q])))
      else if field = ''since'' then Some (NumberMatcher (since_matcher e))
      else if field = ''tag'' then
        Some (StringMatcher (stringFieldMatcher e (\<lambda>ann. ann_tags ann)))
      else if field = ''text'' then
        Some (StringMatcher (stringFieldMatcher e (\<lambda>ann. [ann_text ann])))
      else if field = ''uri'' then
        Some (StringMatcher (stringFieldMatcher e (\<lambda>ann. [ann_uri ann])))
      else if field = ''user'' then
        Some (StringMatcher (stringFieldMatcher e
          (\<lambda>ann. [ann_user ann,
                  case ann_user_info ann of
                    None \<Rightarrow> []
                  | Some ui \<Rightarrow> (case display_name ui of None \<Rightarrow> [] | Some d \<Rightarrow> d)])))
      else None)"

section \<open>Building the filter tree\<close>

text \<open>
  \<open>makeTermFilter\<close>. Calling \<open>normalize\<close> on a value that is not a matcher raises
  TypeError. The cast to \<open>Matcher<any>\<close> lets a term of the other type through. A string
  given to the numeric matcher is kept as it is and converted by \<open><=\<close> at each comparison,
  which the model does once.

  Modelled from the spec: \<open>unicodeUtils\<close> (the Text Normalizer) is not among the sources
  and is specified for strings only; a number given to a string matcher is taken to raise
  TypeError, as the call of a string method on a number does.
\<close>

definition makeTermFilter :: "env \<Rightarrow> string \<Rightarrow> jsval \<Rightarrow> error + Filter" where
  "makeTermFilter e field t =
     (case fieldMatchers e field of
        None \<Rightarrow> Inl TypeError
      | Some (StringMatcher m) \<Rightarrow>
          (case t of
             Str s \<Rightarrow> Inr (StringTermFilter (new_TermFilter s m))
           | Num n \<Rightarrow> Inl TypeError)
      | Some (NumberMatcher m) \<Rightarrow>
          (case t of
             Num n \<Rightarrow> Inr (NumberTermFilter (new_TermFilter n m))
           | Str s \<Rightarrow> Inr (NumberTermFilter (new_TermFilter (ToNumber e s) m))))"

text \<open>\<open>Array.prototype.map\<close> with a callback that may throw: the first exception ends it.\<close>

fun mapE :: "('a \<Rightarrow> error + 'b) \<Rightarrow> 'a list \<Rightarrow> error + 'b list" where
  "mapE f [] = Inr []"
| "mapE f (x # xs) =
     (case f x of
        Inl err \<Rightarrow> Inl err
      | Inr y \<Rightarrow> (case mapE f xs of Inl err \<Rightarrow> Inl err | Inr ys \<Rightarrow> Inr (y # ys)))"

definition anyFields :: "string list" where
  "anyFields = [''quote'', ''text'', ''tag'', ''user'']"

definition anyTermFilter :: "env \<Rightarrow> jsval \<Rightarrow> error + Filter" where
  "anyTermFilter e t =
     (case mapE (\<lambda>field. makeTermFilter e field t) anyFields of
        Inl err \<Rightarrow> Inl err
      | Inr fs \<Rightarrow> Inr (BooleanOpFilter Or fs))"

definition termFilters :: "env \<Rightarrow> string \<Rightarrow> facet \<Rightarrow> error + Filter list" where
  "termFilters e field facet =
     (if field = ''any'' then mapE (\<lambda>t. anyTermFilter e t) (terms facet)
      else mapE (\<lambda>t. makeTermFilter e field t) (terms facet))"

definition fieldFilter :: "env \<Rightarrow> string \<times> facet \<Rightarrow> error + Filter" where
  "fieldFilter e entry =
     (case termFilters e (fst entry) (snd entry) of
        Inl err \<Rightarrow> Inl err
      | Inr tfs \<Rightarrow> Inr (BooleanOpFilter (operator (snd entry)) tfs))"

definition fieldFilters :: "env \<Rightarrow> query \<Rightarrow> error + Filter list" where
  "fieldFilters e filters =
     mapE (fieldFilter e) (filter (\<lambda>entry. length (terms (snd entry)) > 0) filters)"

definition rootFilter :: "env \<Rightarrow> query \<Rightarrow> error + Filter" where
  "rootFilter e filters =
     (case fieldFilters e filters of
        Inl err \<Rightarrow> Inl err
      | Inr ffs \<Rightarrow> Inr (BooleanOpFilter And ffs))"

text \<open>The truth value of \<open>ann.id\<close>: a string that is present and not empty.\<close>

definition truthy :: "string option \<Rightarrow> bool" where
  "truthy v = (case v of None \<Rightarrow> False | Some s \<Rightarrow> s \<noteq> [])"

definition filterAnnotations :: "env \<Rightarrow> annotation list \<Rightarrow> query \<Rightarrow> error + string list" where
  "filterAnnotations e annotations filters =
     (case rootFilter e filters of
        Inl err \<Rightarrow> Inl err
      | Inr rootF \<Rightarrow>
          Inr (map (\<lambda>ann. the (ann_id ann))
                 (filter (\<lambda>ann. truthy (ann_id ann) \<and> Filter_matches rootF ann) annotations)))"

text \<open>
  A well-formed structured query: every facet that has terms names \<open>any\<close> or a field of
  the registry, and the terms of \<open>any\<close> and of the string fields are strings.
\<close>

definition well_formed_query :: "query \<Rightarrow> bool" where
  "well_formed_query q =
     list_all (\<lambda>entry.
        terms (snd entry) = []
        \<or> fst entry = ''since''
        \<or> (fst entry \<in> set [''any'', ''quote'', ''tag'', ''text'', ''uri'', ''user'']
            \<and> list_all (\<lambda>t. case t of Str s \<Rightarrow> True | Num n \<Rightarrow> False) (terms (snd entry)))) q"

section \<open>Example data\<close>

text \<open>
  A clock reading of 2020-01-01T00:02:00Z, three date strings, normalizers that behave
  as the identity (as the real ones do on lower-case ASCII text), and a stand-in for the
  accessor \<open>quote\<close> that finds a quote on one page only.
\<close>

definition ex_env :: env where
  "ex_env =
     \<lparr>Date_now = 1577836920000,
      Date_valueOf = (\<lambda>s. if s = ''2020-01-01T00:01:30Z'' then Some 1577836890000
                          else if s = ''2020-01-01T00:00:00Z'' then Some 1577836800000
                          else None),
      unicode_normalize = (\<lambda>s. s),
      unicode_fold = (\<lambda>s. s),
      toLowerCase = (\<lambda>s. s),
      quote = (\<lambda>ann. if ann_uri ann = ''http://a.org'' then Some ''lorem'' else None),
      ToNumber = (\<lambda>s. NaN)\<rparr>"

definition ex_ann1 :: annotation where
  "ex_ann1 =
     \<lparr>ann_id = Some ''a1'', ann_text = ''hello'', ann_tags = [''red'', ''blue''],
      ann_uri = ''http://a.org'', ann_user = ''acct:alice'',
      ann_user_info = Some \<lparr>display_name = Some ''bob''\<rparr>,
      ann_updated = ''2020-01-01T00:01:30Z''\<rparr>"

definition ex_ann2 :: annotation where
  "ex_ann2 =
     \<lparr>ann_id = Some ''a2'', ann_text = ''world'', ann_tags = [],
      ann_uri = ''http://b.org'', ann_user = ''acct:carol'',
      ann_user_info = None,
      ann_updated = ''2020-01-01T00:00:00Z''\<rparr>"

definition ex_ann3 :: annotation where
  "ex_ann3 =
     \<lparr>ann_id = None, ann_text = ''hello'', ann_tags = [],
      ann_uri = ''http://c.org'', ann_user = ''acct:dave'',
      ann_user_info = Some \<lparr>display_name = None\<rparr>,
      ann_updated = ''yesterday''\<rparr>"

definition ex_text_matcher :: "string matcher" where
  "ex_text_matcher = stringFieldMatcher ex_env (\<lambda>ann. [ann_text ann])"

definition ex_user_matcher :: "string matcher" where
  "ex_user_matcher =
     stringFieldMatcher ex_env
       (\<lambda>ann. [ann_user ann,
               case ann_user_info ann of
                 None \<Rightarrow> []
               | Some ui \<Rightarrow> (case display_name ui of None \<Rightarrow> [] | Some d \<Rightarrow> d)])"

definition ex_since_query :: query where
  "ex_since_query = [(''since'', \<lparr>terms = [Num (Fin 60)], operator = And\<rparr>)]"

section \<open>Auxiliary facts\<close>

lemmas build_defs =
  filterAnnotations_def rootFilter_def fieldFilters_def fieldFilter_def termFilters_def
  anyTermFilter_def anyFields_def makeTermFilter_def fieldMatchers_def

lemmas match_defs =
  since_matcher_def stringFieldMatcher_def normalizeStr_def new_TermFilter_def
  TermFilter_matches_def truthy_def

lemmas ex_defs =
  ex_env_def ex_ann1_def ex_ann2_def ex_ann3_def ex_text_matcher_def ex_user_matcher_def

lemma round_half_even_bound: "\<bar>of_int (round_half_even x) - x\<bar> \<le> 1 / 2"
proof -
  have "of_int \<lfloor>x\<rfloor> \<le> x" "x < of_int \<lfloor>x\<rfloor> + 1"
    by linarith+
  then show ?thesis
    by (auto simp: round_half_even_def Let_def abs_le_iff)
qed

lemma round_half_even_unique:
  assumes "\<bar>of_int m - x\<bar> < 1 / 2"
  shows "round_half_even x = m"
proof -
  have "\<bar>of_int (round_half_even x) - x\<bar> \<le> 1 / 2"
    by (rule round_half_even_bound)
  with assms have "\<bar>(of_int (round_half_even x) :: rat) - of_int m\<bar> < 1"
    by linarith
  then have "\<bar>round_half_even x - m\<bar> < 1"
    by (metis of_int_diff of_int_abs of_int_less_1_iff)
  then show ?thesis by linarith
qed

lemma round_half_even_of_int: "round_half_even (of_int n) = n"
  by (rule round_half_even_unique) simp

lemma ilog2_bounds:
  assumes "0 < a"
  shows "2 powi (ilog2 a) \<le> a \<and> a < 2 powi (ilog2 a + 1)"
proof -
  obtain p q where pq: "quotient_of a = (p, q)" by (cases "quotient_of a")
  then have q: "0 < q" and a: "a = of_int p / of_int q"
    by (auto simp: quotient_of_denom_pos quotient_of_div)
  with assms have p: "0 < p"
    by (simp add: zero_less_divide_iff)
  let ?k = "bitlen p - bitlen q"
  have bp: "2 ^ nat (bitlen p - 1) \<le> p" "p < 2 ^ nat (bitlen p)"
    using bitlen_bounds [OF p] by auto
  have bq: "2 ^ nat (bitlen q - 1) \<le> q" "q < 2 ^ nat (bitlen q)"
    using bitlen_bounds [OF q] by auto
  have p1: "1 \<le> bitlen p" and q1: "1 \<le> bitlen q"
    using p q by (auto simp: bitlen_alt_def)
  have P: "(2::rat) powi (bitlen p - 1) \<le> of_int p" "(of_int p :: rat) < 2 powi (bitlen p)"
  proof -
    have "(of_int (2 ^ nat (bitlen p - 1)) :: rat) \<le> of_int p"
      using bp(1) by (simp only: of_int_le_iff)
    then show "(2::rat) powi (bitlen p - 1) \<le> of_int p"
      using p1 by (simp add: power_int_def)
    have "(of_int p :: rat) < of_int (2 ^ nat (bitlen p))"
      using bp(2) by (simp only: of_int_less_iff)
    then show "(of_int p :: rat) < 2 powi (bitlen p)"
      using p1 by (simp add: power_int_def)
  qed
  have Q: "(2::rat) powi (bitlen q - 1) \<le> of_int q" "(of_int q :: rat) < 2 powi (bitlen q)"
  proof -
    have "(of_int (2 ^ nat (bitlen q - 1)) :: rat) \<le> of_int q"
      using bq(1) by (simp only: of_int_le_iff)
    then show "(2::rat) powi (bitlen q - 1) \<le> of_int q"
      using q1 by (simp add: power_int_def)
    have "(of_int q :: rat) < of_int (2 ^ nat (bitlen q))"
      using bq(2) by (simp only: of_int_less_iff)
    then show "(of_int q :: rat) < 2 powi (bitlen q)"
      using q1 by (simp add: power_int_def)
  qed
  have qpos: "(0::rat) < of_int q" using q by simp
  have up: "a < 2 powi (?k + 1)"
  proof -
    have "of_int p < (2::rat) powi (bitlen p)" by (rule P(2))
    also have "\<dots> = 2 powi (?k + 1) * 2 powi (bitlen q - 1)"
      by (simp add: power_int_add [symmetric])
    also have "\<dots> \<le> 2 powi (?k + 1) * of_int q"
      using Q(1) by (intro mult_left_mono) simp_all
    finally show ?thesis
      using qpos by (simp add: a pos_divide_less_eq)
  qed
  have lo: "2 powi (?k - 1) < a"
  proof -
    have "2 powi (?k - 1) * (of_int q :: rat) < 2 powi (?k - 1) * 2 powi (bitlen q)"
      using Q(2) by (intro mult_strict_left_mono) simp_all
    also have "\<dots> = 2 powi (bitlen p - 1)"
      by (simp add: power_int_add [symmetric])
    also have "\<dots> \<le> of_int p" by (rule P(1))
    finally show ?thesis
      using qpos by (simp add: a pos_less_divide_eq)
  qed
  show ?thesis
  proof (cases "2 powi ?k \<le> a")
    case True
    then have "ilog2 a = ?k" by (simp add: ilog2_def pq)
    with True up show ?thesis by simp
  next
    case False
    then have "ilog2 a = ?k - 1" by (simp add: ilog2_def pq)
    with False lo show ?thesis by simp
  qed
qed

lemma pow2_less_imp:
  assumes "(2::rat) powi m < 2 powi n"
  shows "m < n"
proof (rule ccontr)
  assume "\<not> m < n"
  then have "n \<le> m" by simp
  then have "(2::rat) powi n \<le> 2 powi m"
    by (rule power_int_increasing) simp
  with assms show False by simp
qed

lemma ilog2_unique:
  assumes "2 powi e \<le> a" and "a < 2 powi (e + 1)"
  shows "ilog2 a = e"
proof -
  have "(0::rat) < 2 powi e" by simp
  with assms(1) have pos: "0 < a" by linarith
  from ilog2_bounds [OF pos] have b: "2 powi (ilog2 a) \<le> a" "a < 2 powi (ilog2 a + 1)"
    by auto
  have "(2::rat) powi e < 2 powi (ilog2 a + 1)"
    using assms(1) b(2) by linarith
  then have 1: "e < ilog2 a + 1"
    by (rule pow2_less_imp)
  have "(2::rat) powi (ilog2 a) < 2 powi (e + 1)"
    using assms(2) b(1) by linarith
  then have 2: "ilog2 a < e + 1"
    by (rule pow2_less_imp)
  from 1 2 show ?thesis by linarith
qed


lemma round_double_value:
  assumes lo: "2 powi e \<le> \<bar>x\<bar>" and hi: "\<bar>x\<bar> < 2 powi (e + 1)"
    and e1: "- 1022 \<le> e" and e2: "e \<le> 1022"
  shows "round_double x =
           Fin (if 0 < x then of_int (round_half_even (\<bar>x\<bar> / 2 powi (e - 52))) * 2 powi (e - 52)
                else - (of_int (round_half_even (\<bar>x\<bar> / 2 powi (e - 52))) * 2 powi (e - 52)))
         \<and> \<bar>of_int (round_half_even (\<bar>x\<bar> / 2 powi (e - 52))) * 2 powi (e - 52) - \<bar>x\<bar>\<bar>
               \<le> 2 powi (e - 53)"
proof -
  define a where "a = \<bar>x\<bar>"
  define u :: rat where "u = 2 powi (e - 52)"
  define h :: rat where "h = 2 powi (e - 53)"
  define top :: rat where "top = 2 powi 1024"
  define y where "y = of_int (round_half_even (a / u)) * u"
  have upos: "0 < u" by (simp add: u_def)
  have "(0::rat) < 2 powi e" by simp
  with lo have apos: "0 < a" unfolding a_def by linarith
  then have x0: "x \<noteq> 0" by (auto simp: a_def)
  have il: "ilog2 a = e"
    unfolding a_def using lo hi by (rule ilog2_unique)
  have uh: "u = 2 * h"
  proof -
    have "e - 52 = e - 53 + 1" by simp
    then have "(2::rat) powi (e - 52) = 2 powi (e - 53 + 1)" by (simp only:)
    also have "\<dots> = 2 powi (e - 53) * 2"
      by (subst power_int_add) simp_all
    finally show ?thesis by (simp add: u_def h_def)
  qed
  have "\<bar>of_int (round_half_even (a / u)) - a / u\<bar> \<le> 1 / 2"
    by (rule round_half_even_bound)
  then have "\<bar>of_int (round_half_even (a / u)) - a / u\<bar> * u \<le> 1 / 2 * u"
    using upos by (intro mult_right_mono) simp_all
  moreover have "\<bar>of_int (round_half_even (a / u)) - a / u\<bar> * u = \<bar>y - a\<bar>"
  proof -
    have "\<bar>of_int (round_half_even (a / u)) - a / u\<bar> * u
            = \<bar>(of_int (round_half_even (a / u)) - a / u) * u\<bar>"
      using upos by (simp add: abs_mult)
    also have "(of_int (round_half_even (a / u)) - a / u) * u = y - a"
      using upos by (simp add: y_def algebra_simps)
    finally show ?thesis .
  qed
  ultimately have err: "\<bar>y - a\<bar> \<le> h"
    by (simp add: uh)
  have hle: "h \<le> 2 powi (e + 1)"
    unfolding h_def by (rule power_int_increasing) simp_all
  have dbl: "(2::rat) powi (e + 1) + 2 powi (e + 1) = 2 powi (e + 2)"
  proof -
    have "e + 2 = e + 1 + 1" by simp
    then have "(2::rat) powi (e + 2) = 2 powi (e + 1 + 1)" by (simp only:)
    also have "\<dots> = 2 powi (e + 1) * 2"
      by (subst power_int_add) simp_all
    finally show ?thesis by simp
  qed
  have tp: "(2::rat) powi (e + 2) \<le> top"
    unfolding top_def using e2 by (intro power_int_increasing) simp_all
  have "y \<le> a + h" using err by linarith
  also have "\<dots> < 2 powi (e + 1) + 2 powi (e + 1)"
    using hi hle unfolding a_def by linarith
  finally have "y < top" using dbl tp by linarith
  then have no: "\<not> top \<le> y" by simp
  have mx: "max e (- 1022) = e" using e1 by simp
  have "round_double x =
          (if x = 0 then Fin 0
           else if top \<le> y then (if 0 < x then PosInf else NegInf)
           else Fin (if 0 < x then y else - y))"
    unfolding round_double_def Let_def a_def [symmetric] il mx u_def [symmetric]
      y_def [symmetric] top_def [symmetric] ..
  then have r: "round_double x = Fin (if 0 < x then y else - y)"
    using x0 no by (simp only: if_False)
  from r err show ?thesis
    unfolding y_def a_def u_def h_def by (rule conjI)
qed

lemma round_double_normal:
  assumes lo: "2 powi e \<le> \<bar>x\<bar>" and hi: "\<bar>x\<bar> < 2 powi (e + 1)"
    and e1: "- 1022 \<le> e" and e2: "e \<le> 1022"
  shows "\<exists>y. round_double x = Fin y \<and> \<bar>y - x\<bar> \<le> 2 powi (e - 53)"
proof -
  define y :: rat
    where "y = of_int (round_half_even (\<bar>x\<bar> / 2 powi (e - 52))) * 2 powi (e - 52)"
  from round_double_value [OF assms]
  have r: "round_double x = Fin (if 0 < x then y else - y)"
    and err: "\<bar>y - \<bar>x\<bar>\<bar> \<le> 2 powi (e - 53)"
    unfolding y_def by auto
  have "(0::rat) < 2 powi e" by simp
  with lo have "0 < \<bar>x\<bar>" by linarith
  then have x0: "x \<noteq> 0" by simp
  have "\<bar>(if 0 < x then y else - y) - x\<bar> = \<bar>y - \<bar>x\<bar>\<bar>"
    using x0 by (cases "0 < x") (simp_all add: abs_if)
  with err r show ?thesis by simp
qed

lemma round_double_eq:
  assumes "0 < x" and "2 powi e \<le> x" and "x < 2 powi (e + 1)"
    and "- 1022 \<le> e" and "e \<le> 1022"
    and "\<bar>of_int m - x / 2 powi (e - 52)\<bar> < 1 / 2"
  shows "round_double x = Fin (of_int m * 2 powi (e - 52))"
proof -
  have ax: "\<bar>x\<bar> = x" using assms(1) by simp
  have "round_half_even (x / 2 powi (e - 52)) = m"
    using assms(6) by (rule round_half_even_unique)
  with round_double_value [of e x] assms(1-5) show ?thesis
    by (simp add: ax)
qed

lemma round_double_of_int:
  assumes "\<bar>n\<bar> < 2 ^ 53"
  shows "round_double (of_int n) = Fin (of_int n)"
proof (cases "n = 0")
  case True
  then show ?thesis by (simp add: round_double_def)
next
  case False
  define x :: rat where "x = of_int n"
  define a where "a = \<bar>x\<bar>"
  define e where "e = ilog2 a"
  define u :: rat where "u = 2 powi (e - 52)"
  define top :: rat where "top = 2 powi 1024"
  have a: "a = of_int \<bar>n\<bar>" by (simp add: a_def x_def)
  have "1 \<le> \<bar>n\<bar>" using False by simp
  then have "(of_int 1 :: rat) \<le> of_int \<bar>n\<bar>" by (simp only: of_int_le_iff)
  then have a1: "1 \<le> a" by (simp add: a)
  have p53: "(2::rat) powi 53 = of_int (2 ^ 53)"
    by (simp add: power_int_def)
  have a53: "a < 2 powi 53"
  proof -
    have "(of_int \<bar>n\<bar> :: rat) < of_int (2 ^ 53)"
      using assms by (simp only: of_int_less_iff)
    then show ?thesis by (simp only: a p53)
  qed
  have b: "2 powi e \<le> a" "a < 2 powi (e + 1)"
    using ilog2_bounds [of a] a1 by (auto simp: e_def)
  have "(2::rat) powi 0 < 2 powi (e + 1)"
    using a1 b(2) by simp
  then have "0 < e + 1" by (rule pow2_less_imp)
  then have e0: "0 \<le> e" by simp
  have "(2::rat) powi e < 2 powi 53"
    using b(1) a53 by linarith
  then have "e < 53" by (rule pow2_less_imp)
  then have e52: "e \<le> 52" by simp
  define k where "k = nat (52 - e)"
  have u: "u = 1 / 2 ^ k"
  proof (cases "e = 52")
    case True
    then show ?thesis by (simp add: u_def k_def)
  next
    case False
    with e52 have "e - 52 < 0" by simp
    then show ?thesis
      by (simp add: u_def k_def power_int_def field_simps)
  qed
  have "a / u = of_int (\<bar>n\<bar> * 2 ^ k)"
    by (simp add: u a)
  then have m: "round_half_even (a / u) = \<bar>n\<bar> * 2 ^ k"
    by (simp only: round_half_even_of_int)
  have "of_int (\<bar>n\<bar> * 2 ^ k) * u = a"
    by (simp add: u a)
  then have y: "of_int (round_half_even (a / u)) * u = a"
    by (simp only: m)
  have "(2::rat) powi 53 \<le> top"
    unfolding top_def by (rule power_int_increasing) simp_all
  with a53 have no: "\<not> top \<le> a" by linarith
  have mx: "max e (- 1022) = e" using e0 by simp
  have x0: "x \<noteq> 0" using False by (simp add: x_def)
  have "round_double x =
          (if x = 0 then Fin 0
           else if top \<le> a then (if 0 < x then PosInf else NegInf)
           else Fin (if 0 < x then a else - a))"
    unfolding round_double_def Let_def a_def [symmetric] e_def [symmetric] mx
      u_def [symmetric] y top_def [symmetric] ..
  then have "round_double x = Fin (if 0 < x then a else - a)"
    using x0 no by (simp only: if_False)
  then have "round_double x = Fin x"
    by (simp add: a_def abs_if)
  then show ?thesis by (simp only: x_def)
qed


lemma round_double_three_tenths:
  "round_double (3 / 10) = Fin (5404319552844595 / 18014398509481984)"
proof -
  have p2: "(2::rat) powi (- 2) = 1 / 4" and p1: "(2::rat) powi (- 2 + 1) = 1 / 2"
    and p54: "(2::rat) powi (- 2 - 52) = 1 / 18014398509481984"
    by (simp_all add: power_int_def power_divide)
  have "round_double (3 / 10) = Fin (of_int 5404319552844595 * 2 powi (- 2 - 52))"
    by (rule round_double_eq) (simp_all only: p2 p1 p54, simp_all)
  then show ?thesis
    by (simp only: p54) simp
qed


lemma round_double_thousandth:
  assumes d: "\<bar>d\<bar> < 2 ^ 53"
  shows "\<exists>y. round_double (of_int d / 1000) = Fin y \<and> \<bar>y - of_int d / 1000\<bar> < 1 / 1000"
proof (cases "d = 0")
  case True
  then show ?thesis by (simp add: round_double_def)
next
  case False
  define q :: rat where "q = of_int d / 1000"
  define e where "e = ilog2 \<bar>q\<bar>"
  have aq: "\<bar>q\<bar> = of_int \<bar>d\<bar> / 1000" by (simp add: q_def)
  have "1 \<le> \<bar>d\<bar>" using False by simp
  then have "(of_int 1 :: rat) \<le> of_int \<bar>d\<bar>" by (simp only: of_int_le_iff)
  then have lo: "1 / 1000 \<le> \<bar>q\<bar>" by (simp add: aq)
  have "(of_int \<bar>d\<bar> :: rat) < of_int (2 ^ 53)"
    using d by (simp only: of_int_less_iff)
  then have hi: "\<bar>q\<bar> < 9007199254740992 / 1000" by (simp add: aq)
  have b: "2 powi e \<le> \<bar>q\<bar>" "\<bar>q\<bar> < 2 powi (e + 1)"
    using ilog2_bounds [of "\<bar>q\<bar>"] lo by (auto simp: e_def)
  have p10: "(2::rat) powi (- 10) = 1 / 1024" and p44: "(2::rat) powi 44 = 17592186044416"
    by (simp_all add: power_int_def power_divide)
  have "(2::rat) powi (- 10) < 2 powi (e + 1)"
    using lo b(2) unfolding p10 by linarith
  then have "- 10 < e + 1" by (rule pow2_less_imp)
  then have e1: "- 10 \<le> e" by simp
  have "(2::rat) powi e < 2 powi 44"
    using hi b(1) unfolding p44 by linarith
  then have "e < 44" by (rule pow2_less_imp)
  then have e2: "e \<le> 43" by simp
  from round_double_normal [OF b] e1 e2
  obtain y where y: "round_double q = Fin y" and err: "\<bar>y - q\<bar> \<le> 2 powi (e - 53)"
    by auto
  have "(2::rat) powi (e - 53) \<le> 2 powi (- 10)"
    using e2 by (intro power_int_increasing) simp_all
  with err have "\<bar>y - q\<bar> < 1 / 1000"
    unfolding p10 by linarith
  with y show ?thesis unfolding q_def by blast
qed

lemma round_double_thousandth_le:
  assumes d: "\<bar>d\<bar> < 2 ^ 53"
  shows "\<exists>y. round_double (of_int d / 1000) = Fin y
           \<and> (y \<le> of_int t \<longleftrightarrow> (of_int d / 1000 :: rat) \<le> of_int t)"
proof -
  define q :: rat where "q = of_int d / 1000"
  from round_double_thousandth [OF d]
  obtain y where y: "round_double q = Fin y" and err: "\<bar>y - q\<bar> < 1 / 1000"
    unfolding q_def by blast
  consider "d = 1000 * t" | "d < 1000 * t" | "1000 * t < d" by linarith
  then have "y \<le> of_int t \<longleftrightarrow> q \<le> of_int t"
  proof cases
    case 1
    then have qt: "q = of_int t" by (simp add: q_def)
    from 1 d have "\<bar>t\<bar> < 2 ^ 53" by simp
    then have "round_double (of_int t) = Fin (of_int t)"
      by (rule round_double_of_int)
    with y have "y = of_int t" by (simp add: qt)
    then show ?thesis by (simp add: qt)
  next
    case 2
    then have "d + 1 \<le> 1000 * t" by simp
    then have "(of_int (d + 1) :: rat) \<le> of_int (1000 * t)" by (simp only: of_int_le_iff)
    then have "q + 1 / 1000 \<le> of_int t" by (simp add: q_def)
    with err show ?thesis by linarith
  next
    case 3
    then have "1000 * t + 1 \<le> d" by simp
    then have "(of_int (1000 * t + 1) :: rat) \<le> of_int d" by (simp only: of_int_le_iff)
    then have "of_int t + 1 / 1000 \<le> q" by (simp add: q_def)
    with err show ?thesis by linarith
  qed
  with y show ?thesis unfolding q_def by blast
qed

lemma str_includes_sublist: "str_includes v t \<longleftrightarrow> sublist t v"
  by (induction v) (auto simp: sublist_Cons_right)

lemma mapE_Inr_iff: "mapE f xs = Inr ys \<longleftrightarrow> list_all2 (\<lambda>x y. f x = Inr y) xs ys"
proof (induction xs arbitrary: ys)
  case Nil
  then show ?case by auto
next
  case (Cons x xs)
  show ?case
  proof (cases "f x")
    case (Inl err)
    then show ?thesis by (auto simp: list_all2_Cons1)
  next
    case fx: (Inr y)
    show ?thesis
    proof (cases "mapE f xs")
      case (Inl err)
      with fx Cons.IH show ?thesis by (auto simp: list_all2_Cons1)
    next
      case (Inr zs)
      have "list_all2 (\<lambda>x y. f x = Inr y) xs ys' \<longleftrightarrow> ys' = zs" for ys'
        unfolding Cons.IH [symmetric] Inr by auto
      with fx Inr show ?thesis by (auto simp: list_all2_Cons1)
    qed
  qed
qed

lemma mapE_Inl_iff: "mapE f xs = Inl err \<longleftrightarrow> (\<exists>x \<in> set xs. f x = Inl err)"
proof -
  have one: "\<And>a b :: error. a = b"
    by (metis error.exhaust)
  show ?thesis
    by (induction xs) (auto split: sum.splits intro: one)
qed

lemma mapE_cong: "(\<And>x. x \<in> set xs \<Longrightarrow> f x = g x) \<Longrightarrow> mapE f xs = mapE g xs"
  by (induction xs) (auto split: sum.splits)

lemma mapE_total: "(\<And>x. x \<in> set xs \<Longrightarrow> \<exists>y. f x = Inr y) \<Longrightarrow> \<exists>ys. mapE f xs = Inr ys"
proof (induction xs)
  case Nil
  then show ?case by simp
next
  case (Cons x xs)
  then obtain y ys where "f x = Inr y" "mapE f xs = Inr ys"
    by (meson list.set_intros)
  then show ?case by simp
qed

lemma mapE_length: "mapE f xs = Inr ys \<Longrightarrow> length ys = length xs"
  by (simp add: mapE_Inr_iff list_all2_lengthD)

lemma list_all2_set1: "list_all2 R xs ys \<Longrightarrow> x \<in> set xs \<Longrightarrow> \<exists>y \<in> set ys. R x y"
  by (induction rule: list_all2_induct) auto

lemma list_all2_set2: "list_all2 R xs ys \<Longrightarrow> y \<in> set ys \<Longrightarrow> \<exists>x \<in> set xs. R x y"
  by (induction rule: list_all2_induct) auto

lemma ids_of_filter:
  "map Some (map (\<lambda>ann. the (ann_id ann)) (filter (\<lambda>ann. truthy (ann_id ann) \<and> P ann) anns))
     = map ann_id (filter (\<lambda>a. (\<exists>s. ann_id a = Some s \<and> s \<noteq> []) \<and> P a) anns)"
  by (induction anns) (auto simp: truthy_def split: option.splits)

lemma BooleanOpFilter_case:
  "Filter_matches (BooleanOpFilter opr fs) ann \<longleftrightarrow>
     (case opr of And \<Rightarrow> (\<forall>f \<in> set fs. Filter_matches f ann)
               | Or \<Rightarrow> (\<exists>f \<in> set fs. Filter_matches f ann))"
  by (cases opr) (simp_all add: list_all_iff list_ex_iff)

lemma string_TermFilter_matches:
  "TermFilter_matches (new_TermFilter t (stringFieldMatcher e fv)) ann \<longleftrightarrow>
     (\<exists>v \<in> set (fv ann). sublist (normalizeStr e t) (normalizeStr e v))"
  by (simp add: TermFilter_matches_def new_TermFilter_def stringFieldMatcher_def list_ex_iff
      str_includes_sublist)

lemma since_matches_iff:
  "TermFilter_matches (new_TermFilter age (since_matcher e)) ann \<longleftrightarrow>
     (\<exists>ms. Date_valueOf e (ann_updated ann) = Some ms
        \<and> js_le (js_div (js_sub (Fin (of_int (Date_now e))) (Fin (of_int ms))) (Fin 1000)) age)"
  by (cases "Date_valueOf e (ann_updated ann)")
     (simp_all add: since_matcher_def new_TermFilter_def TermFilter_matches_def)

lemma js_le_NaN: "\<not> js_le x NaN"
  by (cases x) simp_all

lemma round_double_not_NaN: "round_double x \<noteq> NaN"
  by (simp add: round_double_def Let_def)

lemma since_delta:
  assumes "\<bar>now - ms\<bar> < 2 ^ 53"
  shows "js_div (js_sub (Fin (of_int now)) (Fin (of_int ms))) (Fin 1000)
           = round_double (of_int (now - ms) / 1000)"
  using round_double_of_int [OF assms] by simp

lemma since_delta_not_NaN:
  "js_div (js_sub (Fin (of_int now)) (Fin (of_int ms))) (Fin 1000) \<noteq> NaN"
proof (cases "round_double (of_int now - of_int ms)")
  case NaN
  then show ?thesis by (simp add: round_double_not_NaN)
next
  case NegInf
  then show ?thesis by simp
next
  case (Fin x)
  then show ?thesis by (simp add: round_double_not_NaN)
next
  case PosInf
  then show ?thesis by simp
qed

lemma since_matches_finite:
  assumes "Date_valueOf e (ann_updated ann) = Some ms" and "\<bar>Date_now e - ms\<bar> < 2 ^ 53"
  shows "TermFilter_matches (new_TermFilter (Fin r) (since_matcher e)) ann \<longleftrightarrow>
           (\<exists>y. round_double (of_int (Date_now e - ms) / 1000) = Fin y \<and> y \<le> r)"
proof -
  from round_double_thousandth [OF assms(2)]
  obtain y where y: "round_double (of_int (Date_now e - ms) / 1000) = Fin y"
    by blast
  have ex: "(\<exists>m. Date_valueOf e (ann_updated ann) = Some m \<and> Q m) \<longleftrightarrow> Q ms" for Q
    using assms(1) by auto
  have "TermFilter_matches (new_TermFilter (Fin r) (since_matcher e)) ann \<longleftrightarrow> y \<le> r"
    unfolding since_matches_iff ex since_delta [OF assms(2)] y by simp
  with y show ?thesis by simp
qed

lemma since_matches_whole:
  assumes "Date_valueOf e (ann_updated ann) = Some ms" and "\<bar>Date_now e - ms\<bar> < 2 ^ 53"
  shows "TermFilter_matches (new_TermFilter (Fin (of_int t)) (since_matcher e)) ann \<longleftrightarrow>
           (of_int (Date_now e - ms) / 1000 :: rat) \<le> of_int t"
proof -
  from round_double_thousandth_le [OF assms(2), of t]
  obtain y where y: "round_double (of_int (Date_now e - ms) / 1000) = Fin y"
    and c: "y \<le> of_int t \<longleftrightarrow> (of_int (Date_now e - ms) / 1000 :: rat) \<le> of_int t"
    by blast
  from since_matches_finite [OF assms, of "of_int t"] y c show ?thesis
    by simp
qed

lemma makeTermFilter_since:
  "makeTermFilter e ''since'' (Num age) = Inr (NumberTermFilter (new_TermFilter age (since_matcher e)))"
  by (simp add: makeTermFilter_def fieldMatchers_def)

lemma makeTermFilter_string:
  assumes "field \<in> set [''quote'', ''tag'', ''text'', ''uri'', ''user'']"
  shows "\<exists>f. makeTermFilter e field (Str s) = Inr f"
  using assms by (auto simp: makeTermFilter_def fieldMatchers_def)

lemma makeTermFilter_unknown:
  assumes "field \<notin> set [''quote'', ''since'', ''tag'', ''text'', ''uri'', ''user'']"
  shows "makeTermFilter e field t = Inl TypeError"
  using assms by (simp add: makeTermFilter_def fieldMatchers_def)

lemma anyTermFilter_string: "\<exists>f. anyTermFilter e (Str s) = Inr f"
  by (simp add: anyTermFilter_def anyFields_def makeTermFilter_def fieldMatchers_def)

lemma anyTermFilter_Inr:
  assumes "anyTermFilter e t = Inr f"
  shows "\<exists>fq ft fg fu.
           makeTermFilter e ''quote'' t = Inr fq \<and> makeTermFilter e ''text'' t = Inr ft
           \<and> makeTermFilter e ''tag'' t = Inr fg \<and> makeTermFilter e ''user'' t = Inr fu
           \<and> f = BooleanOpFilter Or [fq, ft, fg, fu]"
  using assms by (auto simp: anyTermFilter_def anyFields_def split: sum.splits)

lemma termFilters_length:
  "termFilters e field facet = Inr tfs \<Longrightarrow> length tfs = length (terms facet)"
  by (auto simp: termFilters_def mapE_length split: if_splits)

lemma fieldFilter_Inr:
  assumes "fieldFilter e entry = Inr f"
  shows "\<exists>tfs. termFilters e (fst entry) (snd entry) = Inr tfs
           \<and> length tfs = length (terms (snd entry))
           \<and> f = BooleanOpFilter (operator (snd entry)) tfs"
proof (cases "termFilters e (fst entry) (snd entry)")
  case (Inl err)
  with assms show ?thesis by (simp add: fieldFilter_def)
next
  case (Inr tfs)
  with assms have "f = BooleanOpFilter (operator (snd entry)) tfs"
    by (simp add: fieldFilter_def)
  with Inr termFilters_length [OF Inr] show ?thesis by simp
qed

lemma normalizeStr_clock: "normalizeStr (e\<lparr>Date_now := t\<rparr>) = normalizeStr e"
  by (simp add: fun_eq_iff normalizeStr_def)

lemma stringFieldMatcher_clock:
  "stringFieldMatcher (e\<lparr>Date_now := t\<rparr>) fv = stringFieldMatcher e fv"
  by (simp add: stringFieldMatcher_def normalizeStr_clock)

lemma makeTermFilter_clock:
  assumes "field \<noteq> ''since''"
  shows "makeTermFilter (e\<lparr>Date_now := t\<rparr>) field = makeTermFilter e field"
  using assms
  by (simp add: fun_eq_iff makeTermFilter_def fieldMatchers_def stringFieldMatcher_clock)

lemma anyTermFilter_clock: "anyTermFilter (e\<lparr>Date_now := t\<rparr>) = anyTermFilter e"
proof -
  have "mapE (\<lambda>field. makeTermFilter (e\<lparr>Date_now := t\<rparr>) field tm) anyFields
          = mapE (\<lambda>field. makeTermFilter e field tm) anyFields" for tm
    by (rule mapE_cong) (auto simp: anyFields_def makeTermFilter_clock)
  then show ?thesis
    by (simp add: fun_eq_iff anyTermFilter_def)
qed

lemma termFilters_clock:
  assumes "field = ''since'' \<longrightarrow> terms facet = []"
  shows "termFilters (e\<lparr>Date_now := t\<rparr>) field facet = termFilters e field facet"
proof (cases "field = ''since''")
  case True
  with assms show ?thesis by (simp add: termFilters_def)
next
  case False
  then show ?thesis by (simp add: termFilters_def makeTermFilter_clock anyTermFilter_clock)
qed

section \<open>The result of filterAnnotations\<close>

text \<open>
  C1. When the root filter is built from the query, filterAnnotations returns exactly the
  identifiers of the annotations that have a non-empty id and are matched by the root
  filter, in the order in which those annotations appear in the input list.
\<close>

theorem filterAnnotations_ids:
  assumes "rootFilter e q = Inr rf"
  shows "\<exists>ids. filterAnnotations e anns q = Inr ids
           \<and> map Some ids =
               map ann_id
                 (filter (\<lambda>a. (\<exists>s. ann_id a = Some s \<and> s \<noteq> []) \<and> Filter_matches rf a) anns)
           \<and> (\<forall>s. s \<in> set ids \<longleftrightarrow>
                  s \<noteq> [] \<and> (\<exists>a \<in> set anns. ann_id a = Some s \<and> Filter_matches rf a))
           \<and> subseq (map Some ids) (map ann_id anns)"
proof -
  let ?P = "\<lambda>a. (\<exists>s. ann_id a = Some s \<and> s \<noteq> []) \<and> Filter_matches rf a"
  let ?ids = "map (\<lambda>ann. the (ann_id ann)) (filter ?P anns)"
  have P: "(\<lambda>ann. truthy (ann_id ann) \<and> Filter_matches rf ann) = ?P"
    by (auto simp: truthy_def fun_eq_iff split: option.splits)
  have r: "filterAnnotations e anns q = Inr ?ids"
    using assms by (simp add: filterAnnotations_def P)
  have m: "map Some ?ids = map ann_id (filter ?P anns)"
    by (induction anns) auto
  have s: "s \<in> set ?ids \<longleftrightarrow>
             s \<noteq> [] \<and> (\<exists>a \<in> set anns. ann_id a = Some s \<and> Filter_matches rf a)" for s
    by (induction anns) auto
  have "subseq (filter ?P anns) anns" by simp
  then have "subseq (map ann_id (filter ?P anns)) (map ann_id anns)"
    by (rule subseq_map)
  then have q: "subseq (map Some ?ids) (map ann_id anns)"
    by (simp only: m)
  show ?thesis
    by (rule exI [of _ ?ids]) (use r m s q in blast)
qed

theorem filterAnnotations_ids_witness:
  "rootFilter ex_env [(''text'', \<lparr>terms = [Str ''hello''], operator = Or\<rparr>)]
     = Inr (BooleanOpFilter And
              [BooleanOpFilter Or [StringTermFilter (new_TermFilter ''hello'' ex_text_matcher)]])
   \<and> (\<exists>ids. filterAnnotations ex_env [ex_ann3, ex_ann2, ex_ann1]
               [(''text'', \<lparr>terms = [Str ''hello''], operator = Or\<rparr>)] = Inr ids
          \<and> map Some ids = [Some ''a1''])"
proof -
  let ?q = "[(''text'', \<lparr>terms = [Str ''hello''], operator = Or\<rparr>)]"
  let ?rf = "BooleanOpFilter And
               [BooleanOpFilter Or [StringTermFilter (new_TermFilter ''hello'' ex_text_matcher)]]"
  have h: "rootFilter ex_env ?q = Inr ?rf"
    by (simp add: build_defs ex_text_matcher_def)
  have m: "map ann_id
             (filter (\<lambda>a. (\<exists>s. ann_id a = Some s \<and> s \<noteq> []) \<and> Filter_matches ?rf a)
                [ex_ann3, ex_ann2, ex_ann1]) = [Some ''a1'']"
    by (simp add: match_defs ex_defs)
  obtain ids where r: "filterAnnotations ex_env [ex_ann3, ex_ann2, ex_ann1] ?q = Inr ids"
    and i: "map Some ids =
              map ann_id
                (filter (\<lambda>a. (\<exists>s. ann_id a = Some s \<and> s \<noteq> []) \<and> Filter_matches ?rf a)
                   [ex_ann3, ex_ann2, ex_ann1])"
    using filterAnnotations_ids [OF h, of "[ex_ann3, ex_ann2, ex_ann1]"]
    by (elim exE conjE)
  from i have "map Some ids = [Some ''a1'']"
    by (simp only: m)
  with r have "\<exists>ids. filterAnnotations ex_env [ex_ann3, ex_ann2, ex_ann1] ?q = Inr ids
                 \<and> map Some ids = [Some ''a1'']"
    by (intro exI conjI)
  with h show ?thesis
    by (rule conjI)
qed

section \<open>The expansion of any\<close>

text \<open>
  C2. Every term filter built for a facet named \<open>any\<close> is an OR-combinator over the term
  filters of that term for quote, text, tag and user, in this order, and nothing else. A
  query with the single string term \<open>t\<close> under \<open>any\<close> returns the annotations with a
  non-empty id in which the normalized \<open>t\<close> occurs in the normalized quote, text, some tag,
  user or display name.
\<close>

theorem any_expands_to_four_fields:
  "(\<forall>tfs. termFilters e ''any'' facet = Inr tfs \<longrightarrow>
      list_all2
        (\<lambda>t f. \<exists>fq ft fg fu.
           makeTermFilter e ''quote'' t = Inr fq \<and> makeTermFilter e ''text'' t = Inr ft
           \<and> makeTermFilter e ''tag'' t = Inr fg \<and> makeTermFilter e ''user'' t = Inr fu
           \<and> f = BooleanOpFilter Or [fq, ft, fg, fu])
        (terms facet) tfs)
   \<and> (\<exists>ids. filterAnnotations e anns [(''any'', \<lparr>terms = [Str t], operator = opr\<rparr>)] = Inr ids
        \<and> map Some ids =
            map ann_id
              (filter
                 (\<lambda>a. (\<exists>s. ann_id a = Some s \<and> s \<noteq> [])
                    \<and> (\<exists>v \<in> set ([case quote e a of None \<Rightarrow> [] | Some x \<Rightarrow> x, ann_text a]
                                  @ ann_tags a
                                  @ [ann_user a,
                                     case ann_user_info a of
                                       None \<Rightarrow> []
                                     | Some ui \<Rightarrow> (case display_name ui of None \<Rightarrow> [] | Some d \<Rightarrow> d)]).
                          sublist (normalizeStr e t) (normalizeStr e v)))
                 anns))"
proof (intro conjI allI impI)
  fix tfs
  assume "termFilters e ''any'' facet = Inr tfs"
  then have "list_all2 (\<lambda>t f. anyTermFilter e t = Inr f) (terms facet) tfs"
    by (simp add: termFilters_def mapE_Inr_iff)
  then show "list_all2
        (\<lambda>t f. \<exists>fq ft fg fu.
           makeTermFilter e ''quote'' t = Inr fq \<and> makeTermFilter e ''text'' t = Inr ft
           \<and> makeTermFilter e ''tag'' t = Inr fg \<and> makeTermFilter e ''user'' t = Inr fu
           \<and> f = BooleanOpFilter Or [fq, ft, fg, fu])
        (terms facet) tfs"
    by (rule list_all2_mono) (rule anyTermFilter_Inr)
next
  let ?q = "[(''any'', \<lparr>terms = [Str t], operator = opr\<rparr>)]"
  let ?M = "\<lambda>a. \<exists>v \<in> set ([case quote e a of None \<Rightarrow> [] | Some x \<Rightarrow> x, ann_text a]
                                  @ ann_tags a
                                  @ [ann_user a,
                                     case ann_user_info a of
                                       None \<Rightarrow> []
                                     | Some ui \<Rightarrow> (case display_name ui of None \<Rightarrow> [] | Some d \<Rightarrow> d)]).
                          sublist (normalizeStr e t) (normalizeStr e v)"
  obtain rf where rf: "rootFilter e ?q = Inr rf"
    and m: "\<And>a. Filter_matches rf a \<longleftrightarrow> ?M a"
  proof
    let ?rf = "BooleanOpFilter And [BooleanOpFilter opr [BooleanOpFilter Or
       [StringTermFilter (new_TermFilter t (stringFieldMatcher e
          (\<lambda>ann. [case quote e ann of None \<Rightarrow> [] | Some q \<Rightarrow> q]))),
        StringTermFilter (new_TermFilter t (stringFieldMatcher e (\<lambda>ann. [ann_text ann]))),
        StringTermFilter (new_TermFilter t (stringFieldMatcher e (\<lambda>ann. ann_tags ann))),
        StringTermFilter (new_TermFilter t (stringFieldMatcher e
          (\<lambda>ann. [ann_user ann,
                  case ann_user_info ann of
                    None \<Rightarrow> []
                  | Some ui \<Rightarrow> (case display_name ui of None \<Rightarrow> [] | Some d \<Rightarrow> d)])))]]]"
    show "rootFilter e ?q = Inr ?rf"
      by (simp add: rootFilter_def fieldFilters_def fieldFilter_def termFilters_def
          anyTermFilter_def anyFields_def makeTermFilter_def fieldMatchers_def)
    show "Filter_matches ?rf a \<longleftrightarrow> ?M a" for a
      by (simp add: string_TermFilter_matches) blast
  qed
  have "filterAnnotations e anns ?q =
          Inr (map (\<lambda>ann. the (ann_id ann)) (filter (\<lambda>ann. truthy (ann_id ann) \<and> ?M ann) anns))"
    using rf by (simp add: filterAnnotations_def m)
  moreover have "map Some (map (\<lambda>ann. the (ann_id ann)) (filter (\<lambda>ann. truthy (ann_id ann) \<and> ?M ann) anns))
     = map ann_id (filter (\<lambda>a. (\<exists>s. ann_id a = Some s \<and> s \<noteq> []) \<and> ?M a) anns)"
    by (rule ids_of_filter)
  ultimately show "\<exists>ids. filterAnnotations e anns ?q = Inr ids
        \<and> map Some ids = map ann_id (filter (\<lambda>a. (\<exists>s. ann_id a = Some s \<and> s \<noteq> []) \<and> ?M a) anns)"
    by blast
qed

theorem any_expands_to_four_fields_witness:
  "termFilters ex_env ''any'' \<lparr>terms = [Str ''bo''], operator = Or\<rparr>
     = Inr [BooleanOpFilter Or
              [StringTermFilter (new_TermFilter ''bo'' (stringFieldMatcher ex_env
                 (\<lambda>ann. [case quote ex_env ann of None \<Rightarrow> [] | Some q \<Rightarrow> q]))),
               StringTermFilter (new_TermFilter ''bo'' ex_text_matcher),
               StringTermFilter (new_TermFilter ''bo'' (stringFieldMatcher ex_env (\<lambda>ann. ann_tags ann))),
               StringTermFilter (new_TermFilter ''bo'' ex_user_matcher)]]
   \<and> (\<exists>fq ft fg fu.
         makeTermFilter ex_env ''quote'' (Str ''bo'') = Inr fq
         \<and> makeTermFilter ex_env ''text'' (Str ''bo'') = Inr ft
         \<and> makeTermFilter ex_env ''tag'' (Str ''bo'') = Inr fg
         \<and> makeTermFilter ex_env ''user'' (Str ''bo'') = Inr fu)
   \<and> (\<exists>ids. filterAnnotations ex_env [ex_ann1, ex_ann2, ex_ann3]
               [(''any'', \<lparr>terms = [Str ''bo''], operator = Or\<rparr>)] = Inr ids
          \<and> map Some ids = [Some ''a1''])"
proof -
  let ?facet = "\<lparr>terms = [Str ''bo''], operator = Or\<rparr>"
  let ?tfs = "[BooleanOpFilter Or
              [StringTermFilter (new_TermFilter ''bo'' (stringFieldMatcher ex_env
                 (\<lambda>ann. [case quote ex_env ann of None \<Rightarrow> [] | Some q \<Rightarrow> q]))),
               StringTermFilter (new_TermFilter ''bo'' ex_text_matcher),
               StringTermFilter (new_TermFilter ''bo'' (stringFieldMatcher ex_env (\<lambda>ann. ann_tags ann))),
               StringTermFilter (new_TermFilter ''bo'' ex_user_matcher)]]"
  note T = any_expands_to_four_fields
    [where e = ex_env and facet = ?facet and anns = "[ex_ann1, ex_ann2, ex_ann3]"
       and t = "''bo''" and opr = Or]
  have h: "termFilters ex_env ''any'' ?facet = Inr ?tfs"
    by (simp add: termFilters_def anyTermFilter_def anyFields_def makeTermFilter_def
        fieldMatchers_def ex_text_matcher_def ex_user_matcher_def)
  from T h have "list_all2
        (\<lambda>t f. \<exists>fq ft fg fu.
           makeTermFilter ex_env ''quote'' t = Inr fq \<and> makeTermFilter ex_env ''text'' t = Inr ft
           \<and> makeTermFilter ex_env ''tag'' t = Inr fg \<and> makeTermFilter ex_env ''user'' t = Inr fu
           \<and> f = BooleanOpFilter Or [fq, ft, fg, fu])
        (terms ?facet) ?tfs"
    by (elim conjE allE [of _ ?tfs] impE)
  then have four: "\<exists>fq ft fg fu.
         makeTermFilter ex_env ''quote'' (Str ''bo'') = Inr fq
         \<and> makeTermFilter ex_env ''text'' (Str ''bo'') = Inr ft
         \<and> makeTermFilter ex_env ''tag'' (Str ''bo'') = Inr fg
         \<and> makeTermFilter ex_env ''user'' (Str ''bo'') = Inr fu"
    by (simp only: facet.simps list_all2_Cons list_all2_Nil) blast
  have v: "map ann_id
              (filter
                 (\<lambda>a. (\<exists>s. ann_id a = Some s \<and> s \<noteq> [])
                    \<and> (\<exists>v \<in> set ([case quote ex_env a of None \<Rightarrow> [] | Some x \<Rightarrow> x, ann_text a]
                                  @ ann_tags a
                                  @ [ann_user a,
                                     case ann_user_info a of
                                       None \<Rightarrow> []
                                     | Some ui \<Rightarrow> (case display_name ui of None \<Rightarrow> [] | Some d \<Rightarrow> d)]).
                          sublist (normalizeStr ex_env ''bo'') (normalizeStr ex_env v)))
                 [ex_ann1, ex_ann2, ex_ann3]) = [Some ''a1'']"
    by (simp add: ex_defs normalizeStr_def str_includes_sublist [symmetric])
  from T have "\<exists>ids. filterAnnotations ex_env [ex_ann1, ex_ann2, ex_ann3] [(''any'', ?facet)] = Inr ids
          \<and> map Some ids = [Some ''a1'']"
    unfolding v by (elim conjE)
  with h four show ?thesis by (intro conjI)
qed

section \<open>The clock\<close>

text \<open>
  C3, as amended. The result of filterAnnotations depends on the clock only through a
  \<open>since\<close> facet: for a query in which no \<open>since\<close> facet has a term, the identifier
  list is the same for every clock reading.
\<close>

theorem filterAnnotations_clock_independent:
  assumes "\<forall>entry \<in> set q. fst entry = ''since'' \<longrightarrow> terms (snd entry) = []"
  shows "filterAnnotations (e\<lparr>Date_now := t\<rparr>) anns q = filterAnnotations e anns q"
proof -
  have "fieldFilter (e\<lparr>Date_now := t\<rparr>) entry = fieldFilter e entry" if "entry \<in> set q" for entry
    using assms that by (simp add: fieldFilter_def termFilters_clock)
  then have "fieldFilters (e\<lparr>Date_now := t\<rparr>) q = fieldFilters e q"
    unfolding fieldFilters_def by (intro mapE_cong) simp
  then show ?thesis
    by (simp add: filterAnnotations_def rootFilter_def)
qed

theorem filterAnnotations_clock_independent_witness:
  "filterAnnotations (ex_env\<lparr>Date_now := 1577836830000\<rparr>) [ex_ann1, ex_ann2]
        [(''text'', \<lparr>terms = [Str ''world''], operator = And\<rparr>),
         (''since'', \<lparr>terms = [], operator = And\<rparr>)] = Inr [''a2'']
   \<and> filterAnnotations ex_env [ex_ann1, ex_ann2]
        [(''text'', \<lparr>terms = [Str ''world''], operator = And\<rparr>),
         (''since'', \<lparr>terms = [], operator = And\<rparr>)] = Inr [''a2'']"
proof -
  let ?q = "[(''text'', \<lparr>terms = [Str ''world''], operator = And\<rparr>),
             (''since'', \<lparr>terms = [], operator = And\<rparr>)]"
  have h: "\<forall>entry \<in> set ?q. fst entry = ''since'' \<longrightarrow> terms (snd entry) = []"
    by simp
  have v: "filterAnnotations ex_env [ex_ann1, ex_ann2] ?q = Inr [''a2'']"
    by (simp add: build_defs match_defs ex_defs)
  from filterAnnotations_clock_independent
         [OF h, where e = ex_env and t = 1577836830000 and anns = "[ex_ann1, ex_ann2]"]
  have "filterAnnotations (ex_env\<lparr>Date_now := 1577836830000\<rparr>) [ex_ann1, ex_ann2] ?q = Inr [''a2'']"
    by (simp only: v)
  with v show ?thesis by (intro conjI)
qed

text \<open>
  C3, as stated, fails: with the same annotation and the same query, a call at
  00:02:00 returns no identifier and a call at 00:00:30 returns \<open>a2\<close>.
\<close>

theorem filterAnnotations_clock_counterexample:
  "filterAnnotations ex_env [ex_ann2] ex_since_query = Inr []
   \<and> filterAnnotations (ex_env\<lparr>Date_now := 1577836830000\<rparr>) [ex_ann2] ex_since_query = Inr [''a2'']
   \<and> filterAnnotations ex_env [ex_ann2] ex_since_query
       \<noteq> filterAnnotations (ex_env\<lparr>Date_now := 1577836830000\<rparr>) [ex_ann2] ex_since_query"
proof -
  have i2: "ann_id ex_ann2 = Some ''a2''"
    by (simp add: ex_ann2_def)
  have m1: "\<not> TermFilter_matches (new_TermFilter (Fin 60) (since_matcher ex_env)) ex_ann2"
    using since_matches_whole
      [where e = ex_env and ann = ex_ann2 and ms = 1577836800000 and t = 60]
    by (simp add: ex_defs)
  have m2: "TermFilter_matches
              (new_TermFilter (Fin 60) (since_matcher (ex_env\<lparr>Date_now := 1577836830000\<rparr>))) ex_ann2"
    using since_matches_whole
      [where e = "ex_env\<lparr>Date_now := 1577836830000\<rparr>" and ann = ex_ann2
         and ms = 1577836800000 and t = 60]
    by (simp add: ex_defs)
  show ?thesis
    by (simp add: build_defs truthy_def ex_since_query_def i2 m1 m2)
qed

section \<open>The since matcher\<close>

text \<open>
  C4. The filter built for a numeric term \<open>age\<close> of \<open>since\<close> matches an annotation iff its
  \<open>updated\<close> string has a time value \<open>ms\<close> and the double \<open>(now - ms) / 1000\<close> is at
  most \<open>age\<close>. For time values (whose difference is below \<open>2^53\<close>) that double is the one
  nearest to the exact quotient, and for a whole number of seconds \<open>age\<close> the comparison
  agrees with the exact one: the filter matches iff \<open>(now - ms) / 1000 <= age\<close>. With the
  term 60, an annotation updated 30 seconds ago matches and one updated 120 seconds ago
  does not. No annotation matches the term NaN, and none without a time value matches.
\<close>

theorem since_matches_age:
  "\<exists>f. makeTermFilter e ''since'' (Num age) = Inr f
     \<and> (\<forall>ann. Date_valueOf e (ann_updated ann) = None \<longrightarrow> \<not> Filter_matches f ann)
     \<and> (\<forall>ann. age = NaN \<longrightarrow> \<not> Filter_matches f ann)
     \<and> (\<forall>ann. age = PosInf \<longrightarrow>
           (Filter_matches f ann \<longleftrightarrow> (\<exists>ms. Date_valueOf e (ann_updated ann) = Some ms)))
     \<and> (\<forall>ann ms r. age = Fin r \<and> Date_valueOf e (ann_updated ann) = Some ms
              \<and> \<bar>Date_now e - ms\<bar> < 2 ^ 53 \<longrightarrow>
           (Filter_matches f ann \<longleftrightarrow>
              (\<exists>y. round_double (of_int (Date_now e - ms) / 1000) = Fin y \<and> y \<le> r)))
     \<and> (\<forall>ann ms t. age = Fin (of_int t) \<and> Date_valueOf e (ann_updated ann) = Some ms
              \<and> \<bar>Date_now e - ms\<bar> < 2 ^ 53 \<longrightarrow>
           (Filter_matches f ann \<longleftrightarrow> (of_int (Date_now e - ms) / 1000 :: rat) \<le> of_int t))
     \<and> (\<forall>ann. age = Fin 60 \<and> Date_valueOf e (ann_updated ann) = Some (Date_now e - 30000)
           \<longrightarrow> Filter_matches f ann)
     \<and> (\<forall>ann. age = Fin 60 \<and> Date_valueOf e (ann_updated ann) = Some (Date_now e - 120000)
           \<longrightarrow> \<not> Filter_matches f ann)"
proof -
  let ?f = "NumberTermFilter (new_TermFilter age (since_matcher e))"
  have a: "makeTermFilter e ''since'' (Num age) = Inr ?f"
    by (rule makeTermFilter_since)
  have b: "\<forall>ann. Date_valueOf e (ann_updated ann) = None \<longrightarrow> \<not> Filter_matches ?f ann"
    by (simp add: since_matches_iff)
  have n: "\<forall>ann. age = NaN \<longrightarrow> \<not> Filter_matches ?f ann"
    by (simp add: since_matches_iff js_le_NaN del: js_sub.simps js_div.simps)
  have p: "\<forall>ann. age = PosInf \<longrightarrow>
           (Filter_matches ?f ann \<longleftrightarrow> (\<exists>ms. Date_valueOf e (ann_updated ann) = Some ms))"
  proof (intro allI impI)
    fix ann :: annotation
    assume age: "age = PosInf"
    have "js_le (js_div (js_sub (Fin (of_int (Date_now e))) (Fin (of_int ms))) (Fin 1000)) PosInf" for ms
      using since_delta_not_NaN [of "Date_now e" ms]
      by (cases "js_div (js_sub (Fin (of_int (Date_now e))) (Fin (of_int ms))) (Fin 1000)")
         (simp_all del: js_sub.simps js_div.simps)
    then show "Filter_matches ?f ann \<longleftrightarrow> (\<exists>ms. Date_valueOf e (ann_updated ann) = Some ms)"
      by (simp add: since_matches_iff age del: js_sub.simps js_div.simps)
  qed
  have c: "\<forall>ann ms r. age = Fin r \<and> Date_valueOf e (ann_updated ann) = Some ms
              \<and> \<bar>Date_now e - ms\<bar> < 2 ^ 53 \<longrightarrow>
           (Filter_matches ?f ann \<longleftrightarrow>
              (\<exists>y. round_double (of_int (Date_now e - ms) / 1000) = Fin y \<and> y \<le> r))"
    using since_matches_finite by simp
  have d: "\<forall>ann ms t. age = Fin (of_int t) \<and> Date_valueOf e (ann_updated ann) = Some ms
              \<and> \<bar>Date_now e - ms\<bar> < 2 ^ 53 \<longrightarrow>
           (Filter_matches ?f ann \<longleftrightarrow> (of_int (Date_now e - ms) / 1000 :: rat) \<le> of_int t)"
    using since_matches_whole by simp
  have y: "\<forall>ann. age = Fin 60 \<and> Date_valueOf e (ann_updated ann) = Some (Date_now e - 30000)
           \<longrightarrow> Filter_matches ?f ann"
  proof (intro allI impI, elim conjE)
    fix ann :: annotation
    assume "age = Fin 60" and dv: "Date_valueOf e (ann_updated ann) = Some (Date_now e - 30000)"
    then have age: "age = Fin (of_int 60)" by simp
    have "\<bar>Date_now e - (Date_now e - 30000)\<bar> < 2 ^ 53" by simp
    from since_matches_whole [OF dv this, of 60] show "Filter_matches ?f ann"
      unfolding age by simp
  qed
  have z: "\<forall>ann. age = Fin 60 \<and> Date_valueOf e (ann_updated ann) = Some (Date_now e - 120000)
           \<longrightarrow> \<not> Filter_matches ?f ann"
  proof (intro allI impI, elim conjE)
    fix ann :: annotation
    assume "age = Fin 60" and dv: "Date_valueOf e (ann_updated ann) = Some (Date_now e - 120000)"
    then have age: "age = Fin (of_int 60)" by simp
    have "\<bar>Date_now e - (Date_now e - 120000)\<bar> < 2 ^ 53" by simp
    from since_matches_whole [OF dv this, of 60] show "\<not> Filter_matches ?f ann"
      unfolding age by simp
  qed
  from a b n p c d y z show ?thesis by (intro exI [of _ ?f] conjI)
qed

theorem since_matches_age_witness:
  "(\<exists>f. makeTermFilter ex_env ''since'' (Num (Fin 60)) = Inr f
      \<and> Filter_matches f ex_ann1 \<and> \<not> Filter_matches f ex_ann2 \<and> \<not> Filter_matches f ex_ann3)
   \<and> (\<exists>f. makeTermFilter (ex_env\<lparr>Date_now := 1577836800300\<rparr>) ''since''
             (Num (Fin (5404319552844595 / 18014398509481984))) = Inr f
         \<and> Filter_matches f ex_ann2)"
proof -
  have a1: "Date_valueOf ex_env (ann_updated ex_ann1) = Some (Date_now ex_env - 30000)"
    by (simp add: ex_defs)
  have a2: "Date_valueOf ex_env (ann_updated ex_ann2) = Some (Date_now ex_env - 120000)"
    by (simp add: ex_defs)
  have a3: "Date_valueOf ex_env (ann_updated ex_ann3) = None"
    by (simp add: ex_defs)
  from since_matches_age [of ex_env "Fin 60"] obtain f
    where f: "makeTermFilter ex_env ''since'' (Num (Fin 60)) = Inr f"
      and u: "\<forall>ann. Date_valueOf ex_env (ann_updated ann) = None \<longrightarrow> \<not> Filter_matches f ann"
      and y: "\<forall>ann. Fin 60 = Fin 60 \<and> Date_valueOf ex_env (ann_updated ann) = Some (Date_now ex_env - 30000)
                \<longrightarrow> Filter_matches f ann"
      and n: "\<forall>ann. Fin 60 = Fin 60 \<and> Date_valueOf ex_env (ann_updated ann) = Some (Date_now ex_env - 120000)
                \<longrightarrow> \<not> Filter_matches f ann"
    by (elim exE conjE)
  from y a1 have "Filter_matches f ex_ann1" by blast
  moreover from n a2 have "\<not> Filter_matches f ex_ann2" by blast
  moreover from u a3 have "\<not> Filter_matches f ex_ann3" by blast
  ultimately have first: "\<exists>f. makeTermFilter ex_env ''since'' (Num (Fin 60)) = Inr f
      \<and> Filter_matches f ex_ann1 \<and> \<not> Filter_matches f ex_ann2 \<and> \<not> Filter_matches f ex_ann3"
    using f by blast
  let ?e = "ex_env\<lparr>Date_now := 1577836800300\<rparr>"
  let ?r = "5404319552844595 / 18014398509481984 :: rat"
  have b1: "Date_valueOf ?e (ann_updated ex_ann2) = Some 1577836800000"
    by (simp add: ex_defs)
  have b2: "\<bar>Date_now ?e - 1577836800000\<bar> < 2 ^ 53"
    by simp
  have b3: "round_double (of_int (Date_now ?e - 1577836800000) / 1000) = Fin ?r"
    using round_double_three_tenths by simp
  from since_matches_age [of ?e "Fin ?r"] obtain g
    where g: "makeTermFilter ?e ''since'' (Num (Fin ?r)) = Inr g"
      and c: "\<forall>ann ms r. Fin ?r = Fin r \<and> Date_valueOf ?e (ann_updated ann) = Some ms
              \<and> \<bar>Date_now ?e - ms\<bar> < 2 ^ 53 \<longrightarrow>
           (Filter_matches g ann \<longleftrightarrow>
              (\<exists>y. round_double (of_int (Date_now ?e - ms) / 1000) = Fin y \<and> y \<le> r))"
    by (elim exE conjE)
  from c b1 b2 have "Filter_matches g ex_ann2 \<longleftrightarrow>
      (\<exists>y. round_double (of_int (Date_now ?e - 1577836800000) / 1000) = Fin y \<and> y \<le> ?r)"
    by blast
  moreover have "\<exists>y. round_double (of_int (Date_now ?e - 1577836800000) / 1000) = Fin y \<and> y \<le> ?r"
    unfolding b3 by (intro exI [of _ ?r] conjI refl order_refl)
  ultimately have "Filter_matches g ex_ann2"
    by (rule iffD2)
  with g have "\<exists>f. makeTermFilter ?e ''since'' (Num (Fin ?r)) = Inr f \<and> Filter_matches f ex_ann2"
    by blast
  with first show ?thesis by (rule conjI)
qed

section \<open>The combinator\<close>

text \<open>
  C5. A BooleanOpFilter with operator AND matches an annotation iff every child matches
  it, and with operator OR iff at least one child matches it; with no children AND
  matches and OR does not.
\<close>

theorem BooleanOpFilter_matches_and_or:
  "(Filter_matches (BooleanOpFilter And fs) ann \<longleftrightarrow> (\<forall>f \<in> set fs. Filter_matches f ann))
   \<and> (Filter_matches (BooleanOpFilter Or fs) ann \<longleftrightarrow> (\<exists>f \<in> set fs. Filter_matches f ann))
   \<and> Filter_matches (BooleanOpFilter And []) ann
   \<and> \<not> Filter_matches (BooleanOpFilter Or []) ann"
  by (simp add: list_all_iff list_ex_iff)

theorem BooleanOpFilter_matches_and_or_witness:
  "\<not> Filter_matches
       (BooleanOpFilter And
          [StringTermFilter (new_TermFilter ''hello'' ex_text_matcher),
           StringTermFilter (new_TermFilter ''world'' ex_text_matcher)]) ex_ann1
   \<and> Filter_matches
       (BooleanOpFilter Or
          [StringTermFilter (new_TermFilter ''hello'' ex_text_matcher),
           StringTermFilter (new_TermFilter ''world'' ex_text_matcher)]) ex_ann1"
  using BooleanOpFilter_matches_and_or
    [of "[StringTermFilter (new_TermFilter ''hello'' ex_text_matcher),
          StringTermFilter (new_TermFilter ''world'' ex_text_matcher)]" ex_ann1]
  by (simp add: match_defs ex_defs)

section \<open>The root of the tree\<close>

text \<open>
  C6. The root filter is one AND node whose children are, in the order of the query, one
  node for each facet that has a term; that node combines the facet's term filters with
  the facet's own operator. So the root matches an annotation iff every facet that has a
  term is satisfied under its own operator, and filterAnnotations returns the identifiers
  of exactly the annotations with a non-empty id for which every such facet is satisfied.
\<close>

theorem rootFilter_and_of_facets:
  assumes "rootFilter e q = Inr rf"
  shows "\<exists>ffs. rf = BooleanOpFilter And ffs
     \<and> list_all2
         (\<lambda>entry f. \<exists>tfs. termFilters e (fst entry) (snd entry) = Inr tfs
                        \<and> length tfs = length (terms (snd entry))
                        \<and> f = BooleanOpFilter (operator (snd entry)) tfs)
         (filter (\<lambda>entry. terms (snd entry) \<noteq> []) q) ffs
     \<and> (\<forall>ann. Filter_matches rf ann \<longleftrightarrow>
           (\<forall>entry \<in> set q. terms (snd entry) \<noteq> [] \<longrightarrow>
              (\<exists>tfs. termFilters e (fst entry) (snd entry) = Inr tfs
                 \<and> (case operator (snd entry) of
                       And \<Rightarrow> (\<forall>tf \<in> set tfs. Filter_matches tf ann)
                     | Or \<Rightarrow> (\<exists>tf \<in> set tfs. Filter_matches tf ann)))))
     \<and> (\<exists>ids. filterAnnotations e anns q = Inr ids
          \<and> map Some ids =
              map ann_id
                (filter
                   (\<lambda>a. (\<exists>s. ann_id a = Some s \<and> s \<noteq> [])
                      \<and> (\<forall>entry \<in> set q. terms (snd entry) \<noteq> [] \<longrightarrow>
                            (\<exists>tfs. termFilters e (fst entry) (snd entry) = Inr tfs
                               \<and> (case operator (snd entry) of
                                     And \<Rightarrow> (\<forall>tf \<in> set tfs. Filter_matches tf a)
                                   | Or \<Rightarrow> (\<exists>tf \<in> set tfs. Filter_matches tf a)))))
                   anns))"
proof -
  let ?R = "\<lambda>entry f. \<exists>tfs. termFilters e (fst entry) (snd entry) = Inr tfs
                        \<and> length tfs = length (terms (snd entry))
                        \<and> f = BooleanOpFilter (operator (snd entry)) tfs"
  let ?xs = "filter (\<lambda>entry. terms (snd entry) \<noteq> []) q"
  from assms obtain ffs where ffs: "fieldFilters e q = Inr ffs" and rf: "rf = BooleanOpFilter And ffs"
    by (auto simp: rootFilter_def split: sum.splits)
  from ffs have "list_all2 (\<lambda>entry f. fieldFilter e entry = Inr f) ?xs ffs"
    by (simp add: fieldFilters_def mapE_Inr_iff)
  then have R: "list_all2 ?R ?xs ffs"
    by (rule list_all2_mono) (rule fieldFilter_Inr)
  have sem: "Filter_matches rf ann \<longleftrightarrow>
           (\<forall>entry \<in> set q. terms (snd entry) \<noteq> [] \<longrightarrow>
              (\<exists>tfs. termFilters e (fst entry) (snd entry) = Inr tfs
                 \<and> (case operator (snd entry) of
                       And \<Rightarrow> (\<forall>tf \<in> set tfs. Filter_matches tf ann)
                     | Or \<Rightarrow> (\<exists>tf \<in> set tfs. Filter_matches tf ann))))" (is "?L \<longleftrightarrow> ?S") for ann
  proof
    assume L: ?L
    show ?S
    proof (intro ballI impI)
      fix entry assume "entry \<in> set q" "terms (snd entry) \<noteq> []"
      then have "entry \<in> set ?xs" by simp
      from list_all2_set1 [OF R this] obtain f tfs where f: "f \<in> set ffs"
        and t: "termFilters e (fst entry) (snd entry) = Inr tfs"
        and fe: "f = BooleanOpFilter (operator (snd entry)) tfs"
        by blast
      from L f have "Filter_matches f ann"
        by (simp add: rf list_all_iff)
      then have "case operator (snd entry) of
                       And \<Rightarrow> (\<forall>tf \<in> set tfs. Filter_matches tf ann)
                     | Or \<Rightarrow> (\<exists>tf \<in> set tfs. Filter_matches tf ann)"
        unfolding fe BooleanOpFilter_case .
      with t show "\<exists>tfs. termFilters e (fst entry) (snd entry) = Inr tfs
                 \<and> (case operator (snd entry) of
                       And \<Rightarrow> (\<forall>tf \<in> set tfs. Filter_matches tf ann)
                     | Or \<Rightarrow> (\<exists>tf \<in> set tfs. Filter_matches tf ann))"
        by blast
    qed
  next
    assume S: ?S
    have "Filter_matches f ann" if "f \<in> set ffs" for f
    proof -
      from list_all2_set2 [OF R that] obtain entry tfs where en: "entry \<in> set ?xs"
        and t: "termFilters e (fst entry) (snd entry) = Inr tfs"
        and fe: "f = BooleanOpFilter (operator (snd entry)) tfs"
        by blast
      from en have "entry \<in> set q" "terms (snd entry) \<noteq> []" by simp_all
      with S t have "case operator (snd entry) of
                       And \<Rightarrow> (\<forall>tf \<in> set tfs. Filter_matches tf ann)
                     | Or \<Rightarrow> (\<exists>tf \<in> set tfs. Filter_matches tf ann)"
        by fastforce
      then show ?thesis
        unfolding fe BooleanOpFilter_case .
    qed
    then show ?L
      by (simp add: rf list_all_iff)
  qed
  let ?S = "\<lambda>a. \<forall>entry \<in> set q. terms (snd entry) \<noteq> [] \<longrightarrow>
              (\<exists>tfs. termFilters e (fst entry) (snd entry) = Inr tfs
                 \<and> (case operator (snd entry) of
                       And \<Rightarrow> (\<forall>tf \<in> set tfs. Filter_matches tf a)
                     | Or \<Rightarrow> (\<exists>tf \<in> set tfs. Filter_matches tf a)))"
  have semf: "Filter_matches rf = ?S"
    by (intro ext) (rule sem)
  have "filterAnnotations e anns q =
          Inr (map (\<lambda>ann. the (ann_id ann))
                 (filter (\<lambda>ann. truthy (ann_id ann) \<and> Filter_matches rf ann) anns))"
    using assms by (simp add: filterAnnotations_def)
  then have "filterAnnotations e anns q =
          Inr (map (\<lambda>ann. the (ann_id ann)) (filter (\<lambda>ann. truthy (ann_id ann) \<and> ?S ann) anns))"
    unfolding semf .
  moreover have "map Some (map (\<lambda>ann. the (ann_id ann)) (filter (\<lambda>ann. truthy (ann_id ann) \<and> ?S ann) anns))
     = map ann_id (filter (\<lambda>a. (\<exists>s. ann_id a = Some s \<and> s \<noteq> []) \<and> ?S a) anns)"
    by (rule ids_of_filter)
  ultimately have res: "\<exists>ids. filterAnnotations e anns q = Inr ids
          \<and> map Some ids = map ann_id (filter (\<lambda>a. (\<exists>s. ann_id a = Some s \<and> s \<noteq> []) \<and> ?S a) anns)"
    by blast
  from sem have sem': "\<forall>ann. Filter_matches rf ann \<longleftrightarrow> ?S ann" by blast
  from rf R sem' res show ?thesis
    by (intro exI [of _ ffs] conjI)
qed

theorem rootFilter_and_of_facets_witness:
  "rootFilter ex_env
     [(''text'', \<lparr>terms = [Str ''o'', Str ''w''], operator = And\<rparr>),
      (''uri'', \<lparr>terms = [], operator = And\<rparr>),
      (''user'', \<lparr>terms = [Str ''alice'', Str ''carol''], operator = Or\<rparr>)]
     = Inr (BooleanOpFilter And
              [BooleanOpFilter And
                 [StringTermFilter (new_TermFilter ''o'' ex_text_matcher),
                  StringTermFilter (new_TermFilter ''w'' ex_text_matcher)],
               BooleanOpFilter Or
                 [StringTermFilter (new_TermFilter ''alice'' ex_user_matcher),
                  StringTermFilter (new_TermFilter ''carol'' ex_user_matcher)]])
   \<and> (\<exists>ids. filterAnnotations ex_env [ex_ann1, ex_ann2, ex_ann3]
               [(''text'', \<lparr>terms = [Str ''o'', Str ''w''], operator = And\<rparr>),
                (''uri'', \<lparr>terms = [], operator = And\<rparr>),
                (''user'', \<lparr>terms = [Str ''alice'', Str ''carol''], operator = Or\<rparr>)] = Inr ids
          \<and> map Some ids = [Some ''a2''])"
proof -
  let ?q = "[(''text'', \<lparr>terms = [Str ''o'', Str ''w''], operator = And\<rparr>),
             (''uri'', \<lparr>terms = [], operator = And\<rparr>),
             (''user'', \<lparr>terms = [Str ''alice'', Str ''carol''], operator = Or\<rparr>)]"
  let ?rf = "BooleanOpFilter And
              [BooleanOpFilter And
                 [StringTermFilter (new_TermFilter ''o'' ex_text_matcher),
                  StringTermFilter (new_TermFilter ''w'' ex_text_matcher)],
               BooleanOpFilter Or
                 [StringTermFilter (new_TermFilter ''alice'' ex_user_matcher),
                  StringTermFilter (new_TermFilter ''carol'' ex_user_matcher)]]"
  let ?S = "\<lambda>a. \<forall>entry \<in> set ?q. terms (snd entry) \<noteq> [] \<longrightarrow>
              (\<exists>tfs. termFilters ex_env (fst entry) (snd entry) = Inr tfs
                 \<and> (case operator (snd entry) of
                       And \<Rightarrow> (\<forall>tf \<in> set tfs. Filter_matches tf a)
                     | Or \<Rightarrow> (\<exists>tf \<in> set tfs. Filter_matches tf a)))"
  have h: "rootFilter ex_env ?q = Inr ?rf"
    by (simp add: build_defs ex_text_matcher_def ex_user_matcher_def)
  from rootFilter_and_of_facets [OF h, of "[ex_ann1, ex_ann2, ex_ann3]"] obtain ids
    where sem: "\<forall>ann. Filter_matches ?rf ann \<longleftrightarrow> ?S ann"
      and r: "filterAnnotations ex_env [ex_ann1, ex_ann2, ex_ann3] ?q = Inr ids"
      and m: "map Some ids =
                map ann_id (filter (\<lambda>a. (\<exists>s. ann_id a = Some s \<and> s \<noteq> []) \<and> ?S a)
                  [ex_ann1, ex_ann2, ex_ann3])"
    by (elim exE conjE)
  have S: "filter (\<lambda>a. (\<exists>s. ann_id a = Some s \<and> s \<noteq> []) \<and> ?S a) [ex_ann1, ex_ann2, ex_ann3]
           = filter (\<lambda>a. (\<exists>s. ann_id a = Some s \<and> s \<noteq> []) \<and> Filter_matches ?rf a)
               [ex_ann1, ex_ann2, ex_ann3]"
    by (rule filter_cong [OF refl]) (simp only: sem [rule_format])
  have v: "map ann_id (filter (\<lambda>a. (\<exists>s. ann_id a = Some s \<and> s \<noteq> []) \<and> Filter_matches ?rf a)
             [ex_ann1, ex_ann2, ex_ann3]) = [Some ''a2'']"
    by (simp add: match_defs ex_defs)
  from m have "map Some ids = [Some ''a2'']"
    unfolding S v .
  with r have "\<exists>ids. filterAnnotations ex_env [ex_ann1, ex_ann2, ex_ann3] ?q = Inr ids
                 \<and> map Some ids = [Some ''a2'']"
    by (intro exI conjI)
  with h show ?thesis by (rule conjI)
qed

section \<open>The term filter\<close>

text \<open>
  C7. The constructor of TermFilter stores the normalized term, and the filter matches an
  annotation iff at least one of the values that the matcher extracts, once normalized,
  satisfies the matcher's comparison against that stored term.
\<close>

theorem TermFilter_matches_exists:
  "tf_term (new_TermFilter t m) = normalize_fn m t \<and>
   (TermFilter_matches (new_TermFilter t m) ann \<longleftrightarrow>
      (\<exists>v \<in> set (fieldValues m ann). matches m (normalize_fn m v) (normalize_fn m t)))"
  by (simp add: new_TermFilter_def TermFilter_matches_def list_ex_iff)

theorem TermFilter_matches_exists_witness:
  "TermFilter_matches (new_TermFilter ''bob'' ex_user_matcher) ex_ann1
   \<and> \<not> (\<forall>v \<in> set (fieldValues ex_user_matcher ex_ann1).
           matches ex_user_matcher (normalize_fn ex_user_matcher v)
             (normalize_fn ex_user_matcher ''bob''))"
  using TermFilter_matches_exists [of "''bob''" ex_user_matcher ex_ann1]
  by (simp add: ex_defs stringFieldMatcher_def normalizeStr_def)

section \<open>Facets without terms\<close>

text \<open>
  C8. A query in which every facet has no term (the empty query included) gives a root
  filter with no children, and filterAnnotations returns the identifiers of all
  annotations with a non-empty id, in input order.
\<close>

theorem empty_facets_no_op:
  assumes "\<forall>entry \<in> set q. terms (snd entry) = []"
  shows "rootFilter e q = Inr (BooleanOpFilter And [])
         \<and> (\<exists>ids. filterAnnotations e anns q = Inr ids
                \<and> map Some ids =
                    map ann_id (filter (\<lambda>a. \<exists>s. ann_id a = Some s \<and> s \<noteq> []) anns))"
proof -
  have "filter (\<lambda>entry. length (terms (snd entry)) > 0) q = []"
    using assms by (simp add: filter_empty_conv)
  then have r: "rootFilter e q = Inr (BooleanOpFilter And [])"
    by (simp add: rootFilter_def fieldFilters_def)
  have "map Some (map (\<lambda>ann. the (ann_id ann)) (filter (\<lambda>ann. truthy (ann_id ann) \<and> True) anns))
          = map ann_id (filter (\<lambda>a. (\<exists>s. ann_id a = Some s \<and> s \<noteq> []) \<and> True) anns)"
    by (rule ids_of_filter)
  then have "\<exists>ids. filterAnnotations e anns q = Inr ids
                \<and> map Some ids =
                    map ann_id (filter (\<lambda>a. \<exists>s. ann_id a = Some s \<and> s \<noteq> []) anns)"
    using r by (simp add: filterAnnotations_def)
  with r show ?thesis by (rule conjI)
qed

theorem empty_facets_no_op_witness:
  "rootFilter ex_env
     [(''text'', \<lparr>terms = [], operator = Or\<rparr>), (''group'', \<lparr>terms = [], operator = And\<rparr>)]
     = Inr (BooleanOpFilter And [])
   \<and> (\<exists>ids. filterAnnotations ex_env [ex_ann2, ex_ann3, ex_ann1]
               [(''text'', \<lparr>terms = [], operator = Or\<rparr>), (''group'', \<lparr>terms = [], operator = And\<rparr>)]
             = Inr ids
          \<and> map Some ids = [Some ''a2'', Some ''a1''])"
proof -
  let ?q = "[(''text'', \<lparr>terms = [], operator = Or\<rparr>), (''group'', \<lparr>terms = [], operator = And\<rparr>)]"
  have h: "\<forall>entry \<in> set ?q. terms (snd entry) = []"
    by simp
  have v: "map ann_id (filter (\<lambda>a. \<exists>s. ann_id a = Some s \<and> s \<noteq> []) [ex_ann2, ex_ann3, ex_ann1])
             = [Some ''a2'', Some ''a1'']"
    by (simp add: ex_defs)
  from empty_facets_no_op [OF h, where e = ex_env and anns = "[ex_ann2, ex_ann3, ex_ann1]"]
  show ?thesis
    unfolding v .
qed

section \<open>Exceptions\<close>

text \<open>
  C9. filterAnnotations returns a list for every well-formed query. An annotation whose
  \<open>updated\<close> string has no time value is not matched by a \<open>since\<close> filter, and the
  evaluation goes on.
\<close>

theorem filterAnnotations_no_throw:
  "(well_formed_query q \<longrightarrow> (\<exists>ids. filterAnnotations e anns q = Inr ids))
   \<and> (Date_valueOf e (ann_updated ann) = None \<longrightarrow>
        (\<exists>f. makeTermFilter e ''since'' (Num age) = Inr f \<and> \<not> Filter_matches f ann))"
proof (intro conjI impI)
  assume wf: "well_formed_query q"
  have "\<exists>f. fieldFilter e entry = Inr f"
    if "entry \<in> set (filter (\<lambda>entry. length (terms (snd entry)) > 0) q)" for entry
  proof -
    from that wf have ok: "fst entry = ''since''
        \<or> (fst entry \<in> set [''any'', ''quote'', ''tag'', ''text'', ''uri'', ''user'']
            \<and> list_all (\<lambda>t. case t of Str s \<Rightarrow> True | Num n \<Rightarrow> False) (terms (snd entry)))"
      by (auto simp: well_formed_query_def list_all_iff)
    have "\<exists>tfs. termFilters e (fst entry) (snd entry) = Inr tfs"
    proof (cases "fst entry = ''since''")
      case True
      have "\<exists>y. makeTermFilter e ''since'' t = Inr y" for t
        by (cases t) (simp_all add: makeTermFilter_def fieldMatchers_def)
      then show ?thesis
        using True by (simp add: termFilters_def mapE_total)
    next
      case False
      with ok have str: "\<exists>s. t = Str s" if "t \<in> set (terms (snd entry))" for t
        using that by (cases t) (auto simp: list_all_iff)
      show ?thesis
      proof (cases "fst entry = ''any''")
        case True
        have "\<exists>y. anyTermFilter e t = Inr y" if "t \<in> set (terms (snd entry))" for t
          using str [OF that] anyTermFilter_string by auto
        then show ?thesis
          using True by (simp add: termFilters_def mapE_total)
      next
        case notany: False
        with False ok have fld: "fst entry \<in> set [''quote'', ''tag'', ''text'', ''uri'', ''user'']"
          by auto
        have "\<exists>y. makeTermFilter e (fst entry) t = Inr y" if "t \<in> set (terms (snd entry))" for t
          using str [OF that] makeTermFilter_string [OF fld] by auto
        then show ?thesis
          using notany by (simp add: termFilters_def mapE_total)
      qed
    qed
    then show ?thesis
      by (auto simp: fieldFilter_def)
  qed
  then have "\<exists>ffs. fieldFilters e q = Inr ffs"
    unfolding fieldFilters_def by (rule mapE_total)
  then show "\<exists>ids. filterAnnotations e anns q = Inr ids"
    by (auto simp: filterAnnotations_def rootFilter_def)
next
  assume "Date_valueOf e (ann_updated ann) = None"
  then have "\<not> Filter_matches (NumberTermFilter (new_TermFilter age (since_matcher e))) ann"
    by (simp add: since_matches_iff)
  then show "\<exists>f. makeTermFilter e ''since'' (Num age) = Inr f \<and> \<not> Filter_matches f ann"
    by (simp add: makeTermFilter_since)
qed

theorem filterAnnotations_no_throw_witness:
  "well_formed_query ex_since_query
   \<and> (\<exists>ids. filterAnnotations ex_env [ex_ann1, ex_ann3] ex_since_query = Inr ids)
   \<and> Date_valueOf ex_env (ann_updated ex_ann3) = None
   \<and> (\<exists>f. makeTermFilter ex_env ''since'' (Num (Fin 60)) = Inr f \<and> \<not> Filter_matches f ex_ann3)"
proof -
  have w: "well_formed_query ex_since_query"
    by (simp add: well_formed_query_def ex_since_query_def)
  have d: "Date_valueOf ex_env (ann_updated ex_ann3) = None"
    by (simp add: ex_defs)
  note T = filterAnnotations_no_throw
    [where q = ex_since_query and e = ex_env and anns = "[ex_ann1, ex_ann3]"
       and ann = ex_ann3 and age = "Fin 60"]
  from T [THEN conjunct1] w
  have "\<exists>ids. filterAnnotations ex_env [ex_ann1, ex_ann3] ex_since_query = Inr ids"
    by (rule mp)
  moreover from T [THEN conjunct2] d
  have "\<exists>f. makeTermFilter ex_env ''since'' (Num (Fin 60)) = Inr f \<and> \<not> Filter_matches f ex_ann3"
    by (rule mp)
  ultimately show ?thesis
    using w d by (intro conjI)
qed

text \<open>
  C10. A query with a facet that has a term and whose field is neither \<open>any\<close> nor one of
  quote, since, tag, text, uri, user makes filterAnnotations raise TypeError, whatever the
  other facets and the annotations are.
\<close>

theorem unknown_field_throws:
  assumes "entry \<in> set q" and "terms (snd entry) \<noteq> []"
    and "fst entry \<notin> set [''any'', ''quote'', ''since'', ''tag'', ''text'', ''uri'', ''user'']"
  shows "filterAnnotations e anns q = Inl TypeError"
proof -
  obtain t ts where ts: "terms (snd entry) = t # ts"
    using assms(2) by (cases "terms (snd entry)") auto
  have "makeTermFilter e (fst entry) t = Inl TypeError"
    using assms(3) by (intro makeTermFilter_unknown) simp
  then have "termFilters e (fst entry) (snd entry) = Inl TypeError"
    using assms(3) ts by (simp add: termFilters_def)
  then have "fieldFilter e entry = Inl TypeError"
    by (simp add: fieldFilter_def)
  moreover have "entry \<in> set (filter (\<lambda>entry. length (terms (snd entry)) > 0) q)"
    using assms(1,2) by simp
  ultimately have "fieldFilters e q = Inl TypeError"
    unfolding fieldFilters_def mapE_Inl_iff by blast
  then show ?thesis
    by (simp add: filterAnnotations_def rootFilter_def)
qed

theorem unknown_field_throws_witness:
  "filterAnnotations ex_env [ex_ann1, ex_ann2]
     [(''text'', \<lparr>terms = [Str ''hello''], operator = And\<rparr>),
      (''group'', \<lparr>terms = [Str ''abc''], operator = And\<rparr>)] = Inl TypeError"
  using unknown_field_throws
    [where entry = "(''group'', \<lparr>terms = [Str ''abc''], operator = And\<rparr>)"
       and q = "[(''text'', \<lparr>terms = [Str ''hello''], operator = And\<rparr>),
                 (''group'', \<lparr>terms = [Str ''abc''], operator = And\<rparr>)]"
       and e = ex_env and anns = "[ex_ann1, ex_ann2]"]
  by simp

end
